theory Spec2Isabelle
  imports Complex_Main
begin

section \<open>The environment of \<^verbatim>\<open>data_generator.py\<close>\<close>

text \<open>
  The generator reads four things from outside: Python's \<^verbatim>\<open>random\<close> module,
  numpy's global random state, the Faker instance, and the wall clock. Each is an
  explicit input here. A random source is a tape of raw draws (integers) together with a position;
  each library call reads the cell at the position and advances it. Seeding fixes the
  tapes; it does not fix the clock. A run is taken to lie within one calendar day, so
  the clock gives one date and a microsecond reading for each call of \<^verbatim>\<open>datetime.now()\<close>.

  Floating-point numbers are modelled as exact rationals.
\<close>

datatype error = KeyError string | UnboundLocalError string | ValueError string

record env =
  rand_tape :: "nat \<Rightarrow> int"    \<comment> \<open>raw draws of the \<^verbatim>\<open>random\<close> module\<close>
  normal_tape :: "nat \<Rightarrow> rat"  \<comment> \<open>standard normal deviates of \<^verbatim>\<open>np.random\<close>\<close>
  numpy_tape :: "nat \<Rightarrow> int"   \<comment> \<open>raw draws of \<^verbatim>\<open>np.random\<close> used by \<^verbatim>\<open>DataFrame.sample\<close>\<close>
  faker_tape :: "nat \<Rightarrow> int"   \<comment> \<open>raw draws of the Faker instance\<close>
  faker_text :: "int \<Rightarrow> string" \<comment> \<open>the provider text a raw Faker draw selects\<close>
  today :: int                 \<comment> \<open>the calendar day of the run, in days since 1970-01-01\<close>
  clock :: "nat \<Rightarrow> nat"        \<comment> \<open>microsecond of the day at each reading of the clock\<close>

record pos =
  rp :: nat  \<comment> \<open>position in \<open>rand_tape\<close>\<close>
  np :: nat  \<comment> \<open>position in \<open>normal_tape\<close> and \<open>numpy_tape\<close>\<close>
  fp :: nat  \<comment> \<open>position in \<open>faker_tape\<close>\<close>
  cp :: nat  \<comment> \<open>number of clock readings so far\<close>

definition pos0 :: pos where
  "pos0 = \<lparr>rp = 0, np = 0, fp = 0, cp = 0\<rparr>"

subsection \<open>Dates and times\<close>

record datetime =
  dt_day :: int     \<comment> \<open>days since 1970-01-01\<close>
  dt_micro :: nat   \<comment> \<open>microsecond of the day\<close>

text \<open>\<^verbatim>\<open>datetime.now()\<close>\<close>

definition now :: "env \<Rightarrow> pos \<Rightarrow> datetime \<times> pos" where
  "now e s = (\<lparr>dt_day = today e, dt_micro = clock e (cp s)\<rparr>, s\<lparr>cp := cp s + 1\<rparr>)"

text \<open>\<^verbatim>\<open>d + timedelta(days=n)\<close>\<close>

definition plus_days :: "datetime \<Rightarrow> int \<Rightarrow> datetime" where
  "plus_days d n = d\<lparr>dt_day := dt_day d + n\<rparr>"

text \<open>The civil year and month of a day number (proleptic Gregorian calendar).\<close>

definition year_month :: "int \<Rightarrow> int \<times> int" where
  "year_month z0 =
     (let z = z0 + 719468;
          era = z div 146097;
          doe = z - era * 146097;
          yoe = (doe - doe div 1460 + doe div 36524 - doe div 146096) div 365;
          doy = doe - (365 * yoe + yoe div 4 - yoe div 100);
          mp = (5 * doy + 2) div 153;
          m = (if mp < 10 then mp + 3 else mp - 9);
          y = yoe + era * 400 + (if m \<le> 2 then 1 else 0)
      in (y, m))"

subsection \<open>Number formatting\<close>

definition digit_char :: "nat \<Rightarrow> char" where
  "digit_char d = char_of (48 + d)"

fun digits :: "nat \<Rightarrow> string" where
  "digits n = (if n < 10 then [digit_char n] else digits (n div 10) @ [digit_char (n mod 10)])"

declare digits.simps [simp del]

text \<open>\<^verbatim>\<open>f"{n:0wd}"\<close> for a non-negative \<open>n\<close>\<close>

definition zero_pad :: "nat \<Rightarrow> nat \<Rightarrow> string" where
  "zero_pad w n = replicate (w - length (digits n)) (CHR ''0'') @ digits n"

text \<open>\<^verbatim>\<open>strftime('%Y-%m')\<close>\<close>

definition strftime_Ym :: "datetime \<Rightarrow> string" where
  "strftime_Ym d = (case year_month (dt_day d) of
     (y, m) \<Rightarrow> zero_pad 4 (nat y) @ ''-'' @ zero_pad 2 (nat m))"

text \<open>
  \<^verbatim>\<open>round(x, n)\<close> and \<^verbatim>\<open>int(x)\<close> on the rational that stands for the float:
  rounding to \<open>n\<close> decimals, ties to even, and truncation towards zero.
\<close>

definition round_half_even :: "rat \<Rightarrow> int" where
  "round_half_even x =
     (let f = \<lfloor>x\<rfloor>; r = x - of_int f
      in if r < 1 / 2 then f else if 1 / 2 < r then f + 1
         else if even f then f else f + 1)"

definition py_round :: "rat \<Rightarrow> nat \<Rightarrow> rat" where
  "py_round x n = of_int (round_half_even (x * 10 ^ n)) / 10 ^ n"

definition py_int :: "rat \<Rightarrow> int" where
  "py_int x = (if 0 \<le> x then \<lfloor>x\<rfloor> else \<lceil>x\<rceil>)"

subsection \<open>The \<^verbatim>\<open>random\<close> module\<close>

text \<open>
  \<^verbatim>\<open>random.random()\<close> is a 53-bit integer divided by \<open>2^53\<close>; \<^verbatim>\<open>_randbelow(n)\<close>
  is some integer below \<open>n\<close>. Both read one cell of the tape. The other functions are
  built from these two as the library builds them.
\<close>

definition random :: "env \<Rightarrow> pos \<Rightarrow> rat \<times> pos" where
  "random e s = (of_int (rand_tape e (rp s) mod 2 ^ 53) / 2 ^ 53, s\<lparr>rp := rp s + 1\<rparr>)"

definition randbelow :: "nat \<Rightarrow> env \<Rightarrow> pos \<Rightarrow> nat \<times> pos" where
  "randbelow n e s = (nat (rand_tape e (rp s) mod int n), s\<lparr>rp := rp s + 1\<rparr>)"

text \<open>\<^verbatim>\<open>random.choice(seq)\<close>\<close>

definition choice :: "'a list \<Rightarrow> env \<Rightarrow> pos \<Rightarrow> 'a \<times> pos" where
  "choice xs e s = (case randbelow (length xs) e s of (i, s') \<Rightarrow> (xs ! i, s'))"

text \<open>\<^verbatim>\<open>random.randint(a, b)\<close>\<close>

definition randint :: "int \<Rightarrow> int \<Rightarrow> env \<Rightarrow> pos \<Rightarrow> int \<times> pos" where
  "randint a b e s = (case randbelow (nat (b - a + 1)) e s of (i, s') \<Rightarrow> (a + int i, s'))"

text \<open>\<^verbatim>\<open>random.uniform(a, b)\<close>\<close>

definition uniform :: "rat \<Rightarrow> rat \<Rightarrow> env \<Rightarrow> pos \<Rightarrow> rat \<times> pos" where
  "uniform a b e s = (case random e s of (u, s') \<Rightarrow> (a + (b - a) * u, s'))"

text \<open>
  \<^verbatim>\<open>random.choices(population, weights=ws)[0]\<close>: the index is
  \<^verbatim>\<open>bisect(cum_weights, random() * total, 0, n - 1)\<close>.
\<close>

fun accumulate :: "rat \<Rightarrow> rat list \<Rightarrow> rat list" where
  "accumulate a [] = []"
| "accumulate a (w # ws) = (a + w) # accumulate (a + w) ws"

fun bisect :: "rat list \<Rightarrow> rat \<Rightarrow> nat" where
  "bisect [] x = 0"
| "bisect (c # cs) x = (if x < c then 0 else Suc (bisect cs x))"

definition choices :: "'a list \<Rightarrow> rat list \<Rightarrow> env \<Rightarrow> pos \<Rightarrow> 'a \<times> pos" where
  "choices xs ws e s =
     (case random e s of (u, s') \<Rightarrow>
        (let cum = accumulate 0 ws; total = last cum
         in (xs ! bisect (take (length xs - 1) cum) (u * total), s')))"

subsection \<open>numpy\<close>

text \<open>\<^verbatim>\<open>np.random.normal(mu, sigma)\<close>\<close>

definition normal :: "rat \<Rightarrow> rat \<Rightarrow> env \<Rightarrow> pos \<Rightarrow> rat \<times> pos" where
  "normal mu sigma e s = (mu + sigma * normal_tape e (np s), s\<lparr>np := np s + 1\<rparr>)"

text \<open>
  Drawing \<open>n\<close> rows one after the other without replacement, in the order drawn. Each
  draw reads one cell of the tape. \<open>sample\<close> below calls it with \<open>n\<close> at most the
  number of rows, where it draws exactly \<open>n\<close> rows.
\<close>

fun draw_rows :: "nat \<Rightarrow> 'a list \<Rightarrow> env \<Rightarrow> pos \<Rightarrow> 'a list \<times> pos" where
  "draw_rows 0 xs e s = ([], s)"
| "draw_rows (Suc n) xs e s =
     (if xs = [] then ([], s)
      else let i = nat (numpy_tape e (np s) mod int (length xs));
               s1 = s\<lparr>np := np s + 1\<rparr>
           in case draw_rows n (take i xs @ drop (Suc i) xs) e s1 of
                (ys, s2) \<Rightarrow> (xs ! i # ys, s2))"

text \<open>
  \<^verbatim>\<open>df.sample(n)\<close>: pandas raises \<^verbatim>\<open>ValueError\<close> when \<open>n\<close> is above the number of
  rows (sampling is without replacement), and draws \<open>n\<close> rows otherwise.
\<close>

definition sample :: "nat \<Rightarrow> 'a list \<Rightarrow> env \<Rightarrow> pos \<Rightarrow> error + 'a list \<times> pos" where
  "sample n xs e s =
     (if length xs < n
      then Inl (ValueError ''Cannot take a larger sample than population when replace=False'')
      else Inr (draw_rows n xs e s))"

text \<open>\<^verbatim>\<open>df.sample(frac=p/q)\<close> asks for \<^verbatim>\<open>round(frac * len(df))\<close> rows.\<close>

definition sample_frac :: "rat \<Rightarrow> 'a list \<Rightarrow> env \<Rightarrow> pos \<Rightarrow> error + 'a list \<times> pos" where
  "sample_frac fr xs e s = sample (nat (round_half_even (fr * of_nat (length xs)))) xs e s"

subsection \<open>Faker\<close>

text \<open>A provider that returns text (\<^verbatim>\<open>fake.first_name()\<close>, \<^verbatim>\<open>fake.city()\<close>, ...).\<close>

definition fake_text :: "env \<Rightarrow> pos \<Rightarrow> string \<times> pos" where
  "fake_text e s = (faker_text e (faker_tape e (fp s)), s\<lparr>fp := fp s + 1\<rparr>)"

text \<open>
  \<^verbatim>\<open>fake.date_between(start_date=a, end_date=b)\<close>: a day of the closed range;
  Faker raises \<^verbatim>\<open>ValueError\<close> on an empty range.
\<close>

definition date_between :: "int \<Rightarrow> int \<Rightarrow> env \<Rightarrow> pos \<Rightarrow> (error + int) \<times> pos" where
  "date_between a b e s =
     (if b < a then (Inl (ValueError ''empty range''), s)
      else (Inr (a + faker_tape e (fp s) mod (b - a + 1)), s\<lparr>fp := fp s + 1\<rparr>))"

text \<open>
  \<^verbatim>\<open>'-5y'\<close> is \<open>5 * 365.24\<close> days before today, a \<^verbatim>\<open>timedelta\<close> of \<open>-1827\<close> whole days.
\<close>

definition five_years_ago :: "env \<Rightarrow> int" where
  "five_years_ago e = today e - 1827"

text \<open>\<^verbatim>\<open>fake.date_of_birth(minimum_age=18, maximum_age=80)\<close>\<close>

definition date_of_birth :: "env \<Rightarrow> pos \<Rightarrow> int \<times> pos" where
  "date_of_birth e s =
     (today e - 18 * 365 - faker_tape e (fp s) mod (63 * 365), s\<lparr>fp := fp s + 1\<rparr>)"

subsection \<open>String search\<close>

text \<open>
  \<^verbatim>\<open>Series.str.contains('A|B|C')\<close>: the pattern is a regular expression, an alternation
  of literal words, searched anywhere in the string.
\<close>

fun starts_with :: "string \<Rightarrow> string \<Rightarrow> bool" where
  "starts_with [] ys = True"
| "starts_with (x # xs) [] = False"
| "starts_with (x # xs) (y # ys) = (x = y \<and> starts_with xs ys)"

fun contains_word :: "string \<Rightarrow> string \<Rightarrow> bool" where
  "contains_word w [] = (w = [])"
| "contains_word w (c # cs) = (starts_with w (c # cs) \<or> contains_word w cs)"

definition str_contains :: "string list \<Rightarrow> string \<Rightarrow> bool" where
  "str_contains alternatives str = list_ex (\<lambda>w. contains_word w str) alternatives"

section \<open>The tables\<close>

text \<open>
  A table is the list of the rows that \<^verbatim>\<open>pd.DataFrame(rows)\<close> was built from, in order.
  A table built from an empty list has no columns.
\<close>

record customer =
  c_customer_id :: string
  c_first_name :: string
  c_last_name :: string
  c_email :: string
  c_phone_number :: string
  c_date_of_birth :: int
  c_gender :: string
  c_address :: string
  c_city :: string
  c_state :: string
  c_zip_code :: string
  c_country :: string
  c_account_creation_date :: int
  c_customer_segment :: string
  c_account_status :: string
  c_preferred_contact_method :: string
  c_credit_score :: int
  c_annual_income :: int

datatype capacity = Amount int | Unlimited

record plan =
  p_plan_id :: string
  p_plan_name :: string
  p_service_type :: string
  p_monthly_fee :: rat
  p_data_gb :: "capacity option"
  p_minutes :: "capacity option"
  p_texts :: "capacity option"
  p_speed_mbps :: "capacity option"
  p_data_limit :: "capacity option"
  p_channels :: "capacity option"
  p_hd_channels :: "capacity option"

record service =
  s_customer_id :: string
  s_service_id :: string
  s_plan_id :: string
  s_plan_name :: string
  s_service_type :: string
  s_monthly_fee :: rat
  s_service_start_date :: int
  s_service_status :: string
  s_auto_pay :: bool
  s_contract_length :: int
  s_early_termination_fee :: rat

datatype usage_detail =
  MobileUsage (data_used_gb: rat) (minutes_used: int) (texts_sent: int) (overage_charges: rat)
| InternetUsage (data_used_gb: rat) (peak_speed_mbps: rat) (uptime_percentage: rat)
| TVUsage (hours_watched: int) (channels_watched: int) (ppv_purchases: rat)

record usage =
  u_customer_id :: string
  u_service_id :: string
  u_usage_month :: string
  u_detail :: usage_detail

record billing =
  b_customer_id :: string
  b_service_id :: string
  b_bill_date :: datetime
  b_due_date :: datetime
  b_amount_due :: rat
  b_amount_paid :: rat
  b_payment_date :: "datetime option"
  b_payment_method :: string
  b_payment_status :: string
  b_late_fee :: rat

record ticket =
  t_customer_id :: string
  t_ticket_id :: string
  t_creation_date :: int
  t_issue_type :: string
  t_priority :: string
  t_status :: string
  t_resolution_time_hours :: rat
  t_satisfaction_rating :: int
  t_channel :: string
  t_agent_id :: string

record survey =
  n_customer_id :: string
  n_survey_id :: string
  n_survey_date :: int
  n_nps_score :: int
  n_category :: string
  n_feedback :: "string option"

record metric =
  m_customer_id :: string
  m_total_services :: nat
  m_active_services :: nat
  m_monthly_revenue :: rat
  m_total_lifetime_value :: rat
  m_tenure_months :: int
  m_support_tickets_count :: nat
  m_avg_resolution_time_hours :: rat
  m_avg_satisfaction_rating :: rat
  m_latest_nps_score :: "int option"
  m_churn_risk_score :: int
  m_upsell_score :: int
  m_last_interaction_date :: "int option"

section \<open>\<^verbatim>\<open>generate_customer_demographics\<close>\<close>

definition new_customer :: "env \<Rightarrow> nat \<Rightarrow> pos \<Rightarrow> error + customer \<times> pos" where
  "new_customer e i s =
     (let (first_name, s1) = fake_text e s;
          (last_name, s2) = fake_text e s1;
          (email, s3) = fake_text e s2;
          (phone_number, s4) = fake_text e s3;
          (dob, s5) = date_of_birth e s4;
          (gender, s6) = choice [''Male'', ''Female'', ''Other''] e s5;
          (address, s7) = fake_text e s6;
          (city, s8) = fake_text e s7;
          (state, s9) = fake_text e s8;
          (zip_code, s10) = fake_text e s9
      in case date_between (five_years_ago e) (today e) e s10 of
           (Inl err, _) \<Rightarrow> Inl err
         | (Inr created, s11) \<Rightarrow>
            (let (segment, s12) = choice [''Individual'', ''Small Business'', ''Enterprise''] e s11;
                 (status, s13) = choices [''Active'', ''Suspended'', ''Cancelled''] [85, 10, 5] e s12;
                 (contact, s14) = choice [''Email'', ''Phone'', ''SMS'', ''App''] e s13;
                 (credit_score, s15) = randint 300 850 e s14;
                 (annual_income, s16) = randint 25000 200000 e s15
             in Inr (\<lparr>c_customer_id = ''CUST_'' @ zero_pad 6 (i + 1),
                      c_first_name = first_name,
                      c_last_name = last_name,
                      c_email = email,
                      c_phone_number = phone_number,
                      c_date_of_birth = dob,
                      c_gender = gender,
                      c_address = address,
                      c_city = city,
                      c_state = state,
                      c_zip_code = zip_code,
                      c_country = ''USA'',
                      c_account_creation_date = created,
                      c_customer_segment = segment,
                      c_account_status = status,
                      c_preferred_contact_method = contact,
                      c_credit_score = credit_score,
                      c_annual_income = annual_income\<rparr>, s16)))"

fun customers_loop :: "env \<Rightarrow> nat list \<Rightarrow> customer list \<Rightarrow> pos \<Rightarrow> error + customer list \<times> pos" where
  "customers_loop e [] customers s = Inr (customers, s)"
| "customers_loop e (i # is) customers s =
     (case new_customer e i s of
        Inl err \<Rightarrow> Inl err
      | Inr (c, s1) \<Rightarrow> customers_loop e is (customers @ [c]) s1)"

text \<open>\<^verbatim>\<open>range(num_customers)\<close> is empty for a count of zero or less.\<close>

definition generate_customer_demographics :: "env \<Rightarrow> int \<Rightarrow> pos \<Rightarrow> error + customer list \<times> pos" where
  "generate_customer_demographics e num_customers s =
     customers_loop e [0 ..< nat num_customers] [] s"

section \<open>\<^verbatim>\<open>generate_service_plans\<close>\<close>

definition mobile_plan :: "string \<Rightarrow> string \<Rightarrow> rat \<Rightarrow> capacity \<Rightarrow> capacity \<Rightarrow> plan" where
  "mobile_plan pid name fee gb mins =
     \<lparr>p_plan_id = pid, p_plan_name = name, p_service_type = ''Mobile'', p_monthly_fee = fee,
      p_data_gb = Some gb, p_minutes = Some mins, p_texts = Some Unlimited,
      p_speed_mbps = None, p_data_limit = None, p_channels = None, p_hd_channels = None\<rparr>"

definition internet_plan :: "string \<Rightarrow> string \<Rightarrow> rat \<Rightarrow> int \<Rightarrow> plan" where
  "internet_plan pid name fee mbps =
     \<lparr>p_plan_id = pid, p_plan_name = name, p_service_type = ''Internet'', p_monthly_fee = fee,
      p_data_gb = None, p_minutes = None, p_texts = None,
      p_speed_mbps = Some (Amount mbps), p_data_limit = Some Unlimited,
      p_channels = None, p_hd_channels = None\<rparr>"

definition tv_plan :: "string \<Rightarrow> string \<Rightarrow> rat \<Rightarrow> int \<Rightarrow> int \<Rightarrow> plan" where
  "tv_plan pid name fee ch hdch =
     \<lparr>p_plan_id = pid, p_plan_name = name, p_service_type = ''TV'', p_monthly_fee = fee,
      p_data_gb = None, p_minutes = None, p_texts = None,
      p_speed_mbps = None, p_data_limit = None,
      p_channels = Some (Amount ch), p_hd_channels = Some (Amount hdch)\<rparr>"

definition generate_service_plans :: "plan list" where
  "generate_service_plans =
     [mobile_plan ''PLAN_001'' ''Basic Mobile'' (3599 / 100) (Amount 5) (Amount 500),
      mobile_plan ''PLAN_002'' ''Premium Mobile'' (5599 / 100) (Amount 25) Unlimited,
      mobile_plan ''PLAN_003'' ''Ultimate Mobile'' (8599 / 100) Unlimited Unlimited,
      internet_plan ''PLAN_004'' ''Home Internet Basic'' (4999 / 100) 100,
      internet_plan ''PLAN_005'' ''Home Internet Pro'' (6999 / 100) 300,
      internet_plan ''PLAN_006'' ''Home Internet Gigabit'' (9999 / 100) 1000,
      tv_plan ''PLAN_007'' ''Basic TV'' (3999 / 100) 100 50,
      tv_plan ''PLAN_008'' ''Premium TV'' (7999 / 100) 250 150,
      mobile_plan ''PLAN_009'' ''Business Mobile'' (4599 / 100) (Amount 20) Unlimited,
      internet_plan ''PLAN_010'' ''Business Internet'' (12999 / 100) 500]"

section \<open>\<^verbatim>\<open>generate_customer_services\<close>\<close>

definition available_plans :: "customer \<Rightarrow> plan list \<Rightarrow> plan list" where
  "available_plans c plans =
     (if c_customer_segment c = ''Enterprise'' then
        filter (\<lambda>p. str_contains [''Business'', ''Premium'', ''Ultimate'', ''Pro'', ''Gigabit'']
                       (p_plan_name p)) plans
      else if c_customer_segment c = ''Small Business'' then
        filter (\<lambda>p. \<not> str_contains [''Basic''] (p_plan_name p)) plans
      else plans)"

definition new_service :: "env \<Rightarrow> customer \<Rightarrow> plan \<Rightarrow> nat \<Rightarrow> pos \<Rightarrow> error + service \<times> pos" where
  "new_service e c p len_services s =
     (case date_between (c_account_creation_date c) (today e) e s of
        (Inl err, _) \<Rightarrow> Inl err
      | (Inr service_start, s1) \<Rightarrow>
         (let (status, s2) = choices [''Active'', ''Suspended'', ''Cancelled''] [85, 8, 7] e s1;
              (auto_pay, s3) = choice [True, False] e s2;
              (contract_length, s4) = choice [12, 24, 0] e s3;
              (r, s5) = random e s4;
              (fee, s6) = (if r < 3 / 10 then uniform 0 200 e s5 else (0, s5))
          in Inr (\<lparr>s_customer_id = c_customer_id c,
                   s_service_id = ''SVC_'' @ zero_pad 8 (len_services + 1),
                   s_plan_id = p_plan_id p,
                   s_plan_name = p_plan_name p,
                   s_service_type = p_service_type p,
                   s_monthly_fee = p_monthly_fee p,
                   s_service_start_date = service_start,
                   s_service_status = status,
                   s_auto_pay = auto_pay,
                   s_contract_length = contract_length,
                   s_early_termination_fee = fee\<rparr>, s6)))"

fun add_services ::
  "env \<Rightarrow> customer \<Rightarrow> plan list \<Rightarrow> service list \<Rightarrow> pos \<Rightarrow> error + service list \<times> pos" where
  "add_services e c [] services s = Inr (services, s)"
| "add_services e c (p # ps) services s =
     (case new_service e c p (length services) s of
        Inl err \<Rightarrow> Inl err
      | Inr (svc, s1) \<Rightarrow> add_services e c ps (services @ [svc]) s1)"

text \<open>The sampled service count and the plans selected for one customer.\<close>

definition num_services :: "env \<Rightarrow> pos \<Rightarrow> nat \<times> pos" where
  "num_services e s = choices [1, 2, 3, 4] [30, 40, 20, 10] e s"

definition selected_plans ::
  "env \<Rightarrow> plan list \<Rightarrow> customer \<Rightarrow> pos \<Rightarrow> error + plan list \<times> pos" where
  "selected_plans e plans c s =
     (let (n, s1) = num_services e s;
          available = available_plans c plans
      in sample (min n (length available)) available e s1)"

definition services_for_customer ::
  "env \<Rightarrow> plan list \<Rightarrow> customer \<Rightarrow> service list \<Rightarrow> pos \<Rightarrow> error + service list \<times> pos" where
  "services_for_customer e plans c services s =
     (case selected_plans e plans c s of
        Inl err \<Rightarrow> Inl err
      | Inr (selected, s1) \<Rightarrow> add_services e c selected services s1)"

fun services_loop ::
  "env \<Rightarrow> plan list \<Rightarrow> customer list \<Rightarrow> service list \<Rightarrow> pos \<Rightarrow> error + service list \<times> pos" where
  "services_loop e plans [] services s = Inr (services, s)"
| "services_loop e plans (c # cs) services s =
     (case services_for_customer e plans c services s of
        Inl err \<Rightarrow> Inl err
      | Inr (services', s1) \<Rightarrow> services_loop e plans cs services' s1)"

definition generate_customer_services ::
  "env \<Rightarrow> customer list \<Rightarrow> plan list \<Rightarrow> pos \<Rightarrow> error + service list \<times> pos" where
  "generate_customer_services e customers plans s = services_loop e plans customers [] s"

section \<open>\<^verbatim>\<open>generate_usage_data\<close>\<close>

text \<open>
  The row that one pass of the inner loop assigns to the local variable \<^verbatim>\<open>usage\<close>.
  There is no \<^verbatim>\<open>else\<close> branch: for any other service type nothing is assigned.
\<close>

definition new_usage :: "env \<Rightarrow> service \<Rightarrow> datetime \<Rightarrow> pos \<Rightarrow> usage option \<times> pos" where
  "new_usage e svc usage_date s =
     (if s_service_type svc = ''Mobile'' then
        (let (x, s1) = normal 15 8 e s;
             data_used = max 0 x;
             (y, s2) = normal 800 400 e s1;
             minutes = max 0 (py_int y);
             (z, s3) = normal 1500 800 e s2;
             texts = max 0 (py_int z)
         in (Some \<lparr>u_customer_id = s_customer_id svc,
                   u_service_id = s_service_id svc,
                   u_usage_month = strftime_Ym usage_date,
                   u_detail = MobileUsage (py_round data_used 2) minutes texts
                     (if 25 < data_used then max 0 ((data_used - 25) * 10) else 0)\<rparr>, s3))
      else if s_service_type svc = ''Internet'' then
        (let (x, s1) = normal 400 200 e s;
             data_used = max 0 x;
             (y, s2) = normal (8 / 10) (1 / 10) e s1;
             (z, s3) = normal (992 / 10) (15 / 10) e s2
         in (Some \<lparr>u_customer_id = s_customer_id svc,
                   u_service_id = s_service_id svc,
                   u_usage_month = strftime_Ym usage_date,
                   u_detail = InternetUsage (py_round data_used 2)
                     (y * s_monthly_fee svc * 10) (max 95 z)\<rparr>, s3))
      else if s_service_type svc = ''TV'' then
        (let (x, s1) = normal 120 60 e s;
             (y, s2) = normal 15 8 e s1;
             (k, s3) = choices [0, 1, 2, 3] [70, 20, 7, 3] e s2
         in (Some \<lparr>u_customer_id = s_customer_id svc,
                   u_service_id = s_service_id svc,
                   u_usage_month = strftime_Ym usage_date,
                   u_detail = TVUsage (max 0 (py_int x)) (max 1 (py_int y))
                     (k * (499 / 100))\<rparr>, s3))
      else (None, s))"

text \<open>
  The inner loop over \<^verbatim>\<open>range(12)\<close>. \<open>var\<close> is the local variable \<^verbatim>\<open>usage\<close>:
  \<open>None\<close> while unbound. \<^verbatim>\<open>usage_data.append(usage)\<close> appends whatever the
  variable holds, and raises when it is unbound.
\<close>

fun usage_months ::
  "env \<Rightarrow> service \<Rightarrow> nat list \<Rightarrow> usage option \<Rightarrow> usage list \<Rightarrow> pos
     \<Rightarrow> error + usage option \<times> usage list \<times> pos" where
  "usage_months e svc [] var usage_data s = Inr (var, usage_data, s)"
| "usage_months e svc (month_offset # ks) var usage_data s =
     (let (t, s1) = now e s;
          usage_date = plus_days t (- (30 * int month_offset));
          (assigned, s2) = new_usage e svc usage_date s1;
          var' = (case assigned of Some u \<Rightarrow> Some u | None \<Rightarrow> var)
      in case var' of
           None \<Rightarrow> Inl (UnboundLocalError ''usage'')
         | Some u \<Rightarrow> usage_months e svc ks var' (usage_data @ [u]) s2)"

fun usage_loop ::
  "env \<Rightarrow> service list \<Rightarrow> usage option \<Rightarrow> usage list \<Rightarrow> pos \<Rightarrow> error + usage list \<times> pos" where
  "usage_loop e [] var usage_data s = Inr (usage_data, s)"
| "usage_loop e (svc # svcs) var usage_data s =
     (if s_service_status svc = ''Active'' then
        (case usage_months e svc [0 ..< 12] var usage_data s of
           Inl err \<Rightarrow> Inl err
         | Inr (var', usage_data', s1) \<Rightarrow> usage_loop e svcs var' usage_data' s1)
      else usage_loop e svcs var usage_data s)"

definition generate_usage_data :: "env \<Rightarrow> service list \<Rightarrow> pos \<Rightarrow> error + usage list \<times> pos" where
  "generate_usage_data e services s = usage_loop e services None [] s"

section \<open>\<^verbatim>\<open>generate_billing_data\<close>\<close>

definition payment_date_for :: "string \<Rightarrow> datetime \<Rightarrow> env \<Rightarrow> pos \<Rightarrow> datetime option \<times> pos" where
  "payment_date_for payment_status due_date e s =
     (if payment_status = ''Paid'' then
        (let (d, s1) = randint (- 5) 5 e s in (Some (plus_days due_date d), s1))
      else if payment_status = ''Late'' then
        (let (d, s1) = randint 1 15 e s in (Some (plus_days due_date d), s1))
      else (None, s))"

definition new_billing :: "env \<Rightarrow> service \<Rightarrow> nat \<Rightarrow> pos \<Rightarrow> billing \<times> pos" where
  "new_billing e svc month_offset s =
     (let (t, s1) = now e s;
          bill_date = plus_days t (- (30 * int month_offset));
          due_date = plus_days bill_date 15;
          base_amount = s_monthly_fee svc;
          taxes = base_amount * (8 / 100);
          (fees, s2) = uniform 2 8 e s1;
          total_amount = base_amount + taxes + fees;
          (r, s3) = random e s2;
          (total_amount, s4) =
             (if r < 15 / 100
              then (let (x, s') = uniform 10 50 e s3 in (total_amount + x, s'))
              else (total_amount, s3));
          (payment_status, s5) = choices [''Paid'', ''Late'', ''Unpaid''] [85, 10, 5] e s4;
          (payment_date, s6) = payment_date_for payment_status due_date e s5;
          (payment_method, s7) =
             choice [''Credit Card'', ''Bank Transfer'', ''Check'', ''Auto Pay''] e s6
      in (\<lparr>b_customer_id = s_customer_id svc,
           b_service_id = s_service_id svc,
           b_bill_date = bill_date,
           b_due_date = due_date,
           b_amount_due = py_round total_amount 2,
           b_amount_paid =
             (if payment_status \<in> set [''Paid'', ''Late''] then py_round total_amount 2 else 0),
           b_payment_date = payment_date,
           b_payment_method = payment_method,
           b_payment_status = payment_status,
           b_late_fee = (if payment_status = ''Late'' then 25 else 0)\<rparr>, s7))"

fun billing_months :: "env \<Rightarrow> service \<Rightarrow> nat list \<Rightarrow> billing list \<Rightarrow> pos \<Rightarrow> billing list \<times> pos" where
  "billing_months e svc [] billing_data s = (billing_data, s)"
| "billing_months e svc (month_offset # ks) billing_data s =
     (let (b, s1) = new_billing e svc month_offset s
      in billing_months e svc ks (billing_data @ [b]) s1)"

fun billing_loop :: "env \<Rightarrow> service list \<Rightarrow> billing list \<Rightarrow> pos \<Rightarrow> billing list \<times> pos" where
  "billing_loop e [] billing_data s = (billing_data, s)"
| "billing_loop e (svc # svcs) billing_data s =
     (let (billing_data', s1) = billing_months e svc [0 ..< 12] billing_data s
      in billing_loop e svcs billing_data' s1)"

definition generate_billing_data :: "env \<Rightarrow> service list \<Rightarrow> pos \<Rightarrow> billing list \<times> pos" where
  "generate_billing_data e services s = billing_loop e services [] s"

section \<open>\<^verbatim>\<open>generate_support_tickets\<close>\<close>

text \<open>A dictionary lookup \<^verbatim>\<open>d[k]\<close> on a dictionary given as an association list.\<close>

definition dict_get :: "(string \<times> 'v) list \<Rightarrow> string \<Rightarrow> error + 'v" where
  "dict_get d k = (case map_of d k of None \<Rightarrow> Inl (KeyError k) | Some v \<Rightarrow> Inr v)"

definition new_ticket :: "env \<Rightarrow> customer \<Rightarrow> nat \<Rightarrow> pos \<Rightarrow> error + ticket \<times> pos" where
  "new_ticket e c len_tickets s =
     (case date_between (c_account_creation_date c) (today e) e s of
        (Inl err, _) \<Rightarrow> Inl err
      | (Inr ticket_date, s1) \<Rightarrow>
         (let issue_types =
                [''Billing'', ''Technical Support'', ''Service Change'', ''Complaint'',
                 ''Sales Inquiry''];
              (issue_type, s2) = choice issue_types e s1;
              (h1, s3) = uniform 1 24 e s2;
              (h2, s4) = uniform 2 72 e s3;
              (h3, s5) = uniform (1 / 2) 8 e s4;
              (h4, s6) = uniform 4 48 e s5;
              (h5, s7) = uniform (1 / 2) 4 e s6;
              resolution_hours =
                [(''Billing'', h1), (''Technical Support'', h2), (''Service Change'', h3),
                 (''Complaint'', h4), (''Sales Inquiry'', h5)];
              (priority, s8) = choices [''Low'', ''Medium'', ''High'', ''Critical''] [40, 35, 20, 5] e s7;
              (status, s9) = choices [''Closed'', ''Open'', ''In Progress''] [80, 10, 10] e s8
          in case dict_get resolution_hours issue_type of
               Inl err \<Rightarrow> Inl err
             | Inr hours \<Rightarrow>
                (let (rating, s10) = choices [1, 2, 3, 4, 5] [5, 10, 20, 35, 30] e s9;
                     (channel, s11) = choice [''Phone'', ''Email'', ''Chat'', ''In Store'', ''App''] e s10;
                     (agent, s12) = randint 1 50 e s11
                 in Inr (\<lparr>t_customer_id = c_customer_id c,
                          t_ticket_id = ''TKT_'' @ zero_pad 8 (len_tickets + 1),
                          t_creation_date = ticket_date,
                          t_issue_type = issue_type,
                          t_priority = priority,
                          t_status = status,
                          t_resolution_time_hours = hours,
                          t_satisfaction_rating = rating,
                          t_channel = channel,
                          t_agent_id = ''AGT_'' @ zero_pad 3 (nat agent)\<rparr>, s12))))"

text \<open>\<^verbatim>\<open>for _ in range(num_tickets)\<close>\<close>

fun add_tickets :: "env \<Rightarrow> customer \<Rightarrow> nat \<Rightarrow> ticket list \<Rightarrow> pos \<Rightarrow> error + ticket list \<times> pos" where
  "add_tickets e c 0 tickets s = Inr (tickets, s)"
| "add_tickets e c (Suc n) tickets s =
     (case new_ticket e c (length tickets) s of
        Inl err \<Rightarrow> Inl err
      | Inr (t, s1) \<Rightarrow> add_tickets e c n (tickets @ [t]) s1)"

fun tickets_loop :: "env \<Rightarrow> customer list \<Rightarrow> ticket list \<Rightarrow> pos \<Rightarrow> error + ticket list \<times> pos" where
  "tickets_loop e [] tickets s = Inr (tickets, s)"
| "tickets_loop e (c # cs) tickets s =
     (let (num_tickets, s1) = choices [1, 2, 3, 4, 5] [50, 30, 15, 4, 1] e s
      in case add_tickets e c num_tickets tickets s1 of
           Inl err \<Rightarrow> Inl err
         | Inr (tickets', s2) \<Rightarrow> tickets_loop e cs tickets' s2)"

definition generate_support_tickets :: "env \<Rightarrow> customer list \<Rightarrow> pos \<Rightarrow> error + ticket list \<times> pos" where
  "generate_support_tickets e customers s =
     (case sample_frac (4 / 10) customers e s of
        Inl err \<Rightarrow> Inl err
      | Inr (customers_with_tickets, s1) \<Rightarrow> tickets_loop e customers_with_tickets [] s1)"

section \<open>\<^verbatim>\<open>generate_nps_surveys\<close>\<close>

definition nps_category :: "int \<Rightarrow> string" where
  "nps_category nps_score =
     (if 9 \<le> nps_score then ''Promoter'' else if 7 \<le> nps_score then ''Passive'' else ''Detractor'')"

definition new_survey :: "env \<Rightarrow> customer \<Rightarrow> nat \<Rightarrow> pos \<Rightarrow> error + survey \<times> pos" where
  "new_survey e c len_surveys s =
     (case date_between (c_account_creation_date c) (today e) e s of
        (Inl err, _) \<Rightarrow> Inl err
      | (Inr survey_date, s1) \<Rightarrow>
         (let (nps_score, s2) =
                choices [0, 1, 2, 3, 4, 5, 6, 7, 8, 9, 10] [3, 2, 3, 4, 5, 8, 12, 15, 18, 20, 10] e s1;
              (r, s3) = random e s2;
              (feedback, s4) =
                (if r < 6 / 10
                 then (let (nb_words, s') = randint 10 30 e s3;
                           (sentence, s'') = fake_text e s'
                       in (Some sentence, s''))
                 else (None, s3))
          in Inr (\<lparr>n_customer_id = c_customer_id c,
                   n_survey_id = ''NPS_'' @ zero_pad 8 (len_surveys + 1),
                   n_survey_date = survey_date,
                   n_nps_score = nps_score,
                   n_category = nps_category nps_score,
                   n_feedback = feedback\<rparr>, s4)))"

fun add_surveys :: "env \<Rightarrow> customer \<Rightarrow> nat \<Rightarrow> survey list \<Rightarrow> pos \<Rightarrow> error + survey list \<times> pos" where
  "add_surveys e c 0 surveys s = Inr (surveys, s)"
| "add_surveys e c (Suc n) surveys s =
     (case new_survey e c (length surveys) s of
        Inl err \<Rightarrow> Inl err
      | Inr (v, s1) \<Rightarrow> add_surveys e c n (surveys @ [v]) s1)"

fun surveys_loop :: "env \<Rightarrow> customer list \<Rightarrow> survey list \<Rightarrow> pos \<Rightarrow> error + survey list \<times> pos" where
  "surveys_loop e [] surveys s = Inr (surveys, s)"
| "surveys_loop e (c # cs) surveys s =
     (let (num_surveys, s1) = choices [1, 2, 3] [60, 30, 10] e s
      in case add_surveys e c num_surveys surveys s1 of
           Inl err \<Rightarrow> Inl err
         | Inr (surveys', s2) \<Rightarrow> surveys_loop e cs surveys' s2)"

definition generate_nps_surveys :: "env \<Rightarrow> customer list \<Rightarrow> pos \<Rightarrow> error + survey list \<times> pos" where
  "generate_nps_surveys e customers s =
     (case sample_frac (3 / 10) customers e s of
        Inl err \<Rightarrow> Inl err
      | Inr (surveyed_customers, s1) \<Rightarrow> surveys_loop e surveyed_customers [] s1)"

section \<open>\<^verbatim>\<open>calculate_customer_metrics\<close>\<close>

text \<open>
  \<^verbatim>\<open>df[df['customer_id'] == customer_id]\<close>: the column lookup raises \<^verbatim>\<open>KeyError\<close>
  on a table without columns; otherwise the matching rows, which keep the columns
  even when there is none.
\<close>

definition rows_of_customer :: "('r \<Rightarrow> string) \<Rightarrow> 'r list \<Rightarrow> string \<Rightarrow> error + 'r list" where
  "rows_of_customer cid_of df customer_id =
     (if df = [] then Inl (KeyError ''customer_id'')
      else Inr (filter (\<lambda>r. cid_of r = customer_id) df))"

text \<open>\<^verbatim>\<open>Series.mean()\<close>: \<open>None\<close> stands for \<^verbatim>\<open>NaN\<close>, the mean of nothing.\<close>

definition mean :: "rat list \<Rightarrow> rat option" where
  "mean xs = (if xs = [] then None else Some (sum_list xs / of_nat (length xs)))"

text \<open>\<^verbatim>\<open>groupby('bill_date')['amount_due'].sum()\<close>: one sum per distinct bill date.\<close>

definition groupby_bill_date_sum :: "billing list \<Rightarrow> rat list" where
  "groupby_bill_date_sum bs =
     map (\<lambda>d. sum_list (map b_amount_due (filter (\<lambda>b. b_bill_date b = d) bs)))
         (remdups (map b_bill_date bs))"

text \<open>
  \<^verbatim>\<open>customer_nps.loc[customer_nps['survey_date'].idxmax()]['nps_score']\<close>: the score of
  the first row that has the greatest survey date.
\<close>

definition latest_nps_of :: "survey list \<Rightarrow> int option" where
  "latest_nps_of customer_nps =
     (case customer_nps of
        [] \<Rightarrow> None
      | v # vs \<Rightarrow>
          Some (n_nps_score
            (fold (\<lambda>x best. if n_survey_date best < n_survey_date x then x else best) vs v)))"

text \<open>The truth value Python gives to \<^verbatim>\<open>latest_nps\<close>: \<^verbatim>\<open>None\<close> and \<open>0\<close> are false.\<close>

definition truthy :: "int option \<Rightarrow> bool" where
  "truthy v = (case v of None \<Rightarrow> False | Some n \<Rightarrow> n \<noteq> 0)"

definition churn_risk :: "nat \<Rightarrow> rat \<Rightarrow> int option \<Rightarrow> billing list \<Rightarrow> int" where
  "churn_risk n_tickets avg_satisfaction latest_nps customer_billing =
     (let risk_factors = 0;
          risk_factors = (if 3 < n_tickets then risk_factors + 20 else risk_factors);
          risk_factors = (if avg_satisfaction < 3 then risk_factors + 25 else risk_factors);
          risk_factors = (if truthy latest_nps \<and> the latest_nps \<le> 6
                          then risk_factors + 30 else risk_factors);
          risk_factors =
            (if 2 < length (filter (\<lambda>b. str_contains [''Late'', ''Unpaid''] (b_payment_status b))
                                   customer_billing)
             then risk_factors + 25 else risk_factors)
      in min 100 risk_factors)"

text \<open>A comparison with \<^verbatim>\<open>NaN\<close> is false.\<close>

definition upsell :: "nat \<Rightarrow> rat option \<Rightarrow> rat \<Rightarrow> int option \<Rightarrow> int" where
  "upsell n_active monthly_revenue avg_satisfaction latest_nps =
     (let upsell_score = 0;
          upsell_score = (if n_active < 3 then upsell_score + 30 else upsell_score);
          upsell_score = (if (case monthly_revenue of None \<Rightarrow> False | Some r \<Rightarrow> r < 100)
                          then upsell_score + 20 else upsell_score);
          upsell_score = (if 4 \<le> avg_satisfaction then upsell_score + 25 else upsell_score);
          upsell_score = (if truthy latest_nps \<and> 8 \<le> the latest_nps
                          then upsell_score + 25 else upsell_score)
      in min 100 upsell_score)"

text \<open>\<^verbatim>\<open>Series.max()\<close> of a non-empty column of dates.\<close>

definition max_date :: "int list \<Rightarrow> int option" where
  "max_date ds = (case ds of [] \<Rightarrow> None | d # ds' \<Rightarrow> Some (fold max ds' d))"

definition customer_metric ::
  "env \<Rightarrow> service list \<Rightarrow> billing list \<Rightarrow> ticket list \<Rightarrow> survey list \<Rightarrow> customer \<Rightarrow> pos
     \<Rightarrow> error + metric \<times> pos" where
  "customer_metric e services_df billing_df tickets_df nps_df c s =
     (let customer_id = c_customer_id c
      in case rows_of_customer s_customer_id services_df customer_id of
           Inl err \<Rightarrow> Inl err
         | Inr customer_services \<Rightarrow>
      (let active_services = filter (\<lambda>v. s_service_status v = ''Active'') customer_services
       in case rows_of_customer b_customer_id billing_df customer_id of
            Inl err \<Rightarrow> Inl err
          | Inr customer_billing \<Rightarrow>
      (let monthly_revenue = mean (groupby_bill_date_sum customer_billing);
           total_revenue = sum_list (map b_amount_paid customer_billing)
       in case rows_of_customer t_customer_id tickets_df customer_id of
            Inl err \<Rightarrow> Inl err
          | Inr customer_tickets \<Rightarrow>
      (let avg_resolution_time =
             (if 0 < length customer_tickets
              then the (mean (map t_resolution_time_hours customer_tickets)) else 0);
           avg_satisfaction =
             (if 0 < length customer_tickets
              then the (mean (map (\<lambda>t. of_int (t_satisfaction_rating t)) customer_tickets))
              else 5)
       in case rows_of_customer n_customer_id nps_df customer_id of
            Inl err \<Rightarrow> Inl err
          | Inr customer_nps \<Rightarrow>
      (let latest_nps = (if 0 < length customer_nps then latest_nps_of customer_nps else None);
           churn = churn_risk (length customer_tickets) avg_satisfaction latest_nps customer_billing;
           upsell_score = upsell (length active_services) monthly_revenue avg_satisfaction latest_nps;
           (t, s1) = now e s
       in Inr (\<lparr>m_customer_id = customer_id,
                m_total_services = length customer_services,
                m_active_services = length active_services,
                m_monthly_revenue =
                  (case monthly_revenue of Some r \<Rightarrow> py_round r 2 | None \<Rightarrow> 0),
                m_total_lifetime_value = py_round total_revenue 2,
                m_tenure_months = (dt_day t - c_account_creation_date c) div 30,
                m_support_tickets_count = length customer_tickets,
                m_avg_resolution_time_hours = py_round avg_resolution_time 1,
                m_avg_satisfaction_rating = py_round avg_satisfaction 1,
                m_latest_nps_score = latest_nps,
                m_churn_risk_score = churn,
                m_upsell_score = upsell_score,
                m_last_interaction_date =
                  (if 0 < length customer_tickets
                   then max_date (map t_creation_date customer_tickets) else None)\<rparr>, s1))))))"

fun metrics_loop ::
  "env \<Rightarrow> service list \<Rightarrow> billing list \<Rightarrow> ticket list \<Rightarrow> survey list \<Rightarrow> customer list
     \<Rightarrow> metric list \<Rightarrow> pos \<Rightarrow> error + metric list \<times> pos" where
  "metrics_loop e sv bl tk nps [] metrics s = Inr (metrics, s)"
| "metrics_loop e sv bl tk nps (c # cs) metrics s =
     (case customer_metric e sv bl tk nps c s of
        Inl err \<Rightarrow> Inl err
      | Inr (m, s1) \<Rightarrow> metrics_loop e sv bl tk nps cs (metrics @ [m]) s1)"

definition calculate_customer_metrics ::
  "env \<Rightarrow> customer list \<Rightarrow> service list \<Rightarrow> billing list \<Rightarrow> ticket list \<Rightarrow> survey list \<Rightarrow> pos
     \<Rightarrow> error + metric list \<times> pos" where
  "calculate_customer_metrics e customers_df services_df billing_df tickets_df nps_df s =
     metrics_loop e services_df billing_df tickets_df nps_df customers_df [] s"

section \<open>\<^verbatim>\<open>generate_all_data\<close>\<close>

record tables =
  customers :: "customer list"
  plans :: "plan list"
  services :: "service list"
  usage_rows :: "usage list"
  billing_rows :: "billing list"
  support_tickets :: "ticket list"
  nps_surveys :: "survey list"
  customer_metrics :: "metric list"

text \<open>
  \<^verbatim>\<open>TelcoDataGenerator(num_customers).generate_all_data()\<close>. The constructor stores the
  count and checks nothing. \<open>s\<close> is where the random sources stand when the call starts:
  \<open>pos0\<close> right after the module has seeded them.
\<close>

definition generate_all_data :: "env \<Rightarrow> int \<Rightarrow> pos \<Rightarrow> error + tables \<times> pos" where
  "generate_all_data e num_customers s =
     (case generate_customer_demographics e num_customers s of
        Inl err \<Rightarrow> Inl err
      | Inr (customers_df, s1) \<Rightarrow>
     (let plans_df = generate_service_plans
      in case generate_customer_services e customers_df plans_df s1 of
        Inl err \<Rightarrow> Inl err
      | Inr (services_df, s2) \<Rightarrow>
     (case generate_usage_data e services_df s2 of
        Inl err \<Rightarrow> Inl err
      | Inr (usage_df, s3) \<Rightarrow>
     (let (billing_df, s4) = generate_billing_data e services_df s3
      in case generate_support_tickets e customers_df s4 of
        Inl err \<Rightarrow> Inl err
      | Inr (tickets_df, s5) \<Rightarrow>
     (case generate_nps_surveys e customers_df s5 of
        Inl err \<Rightarrow> Inl err
      | Inr (nps_df, s6) \<Rightarrow>
     (case calculate_customer_metrics e customers_df services_df billing_df tickets_df nps_df s6 of
        Inl err \<Rightarrow> Inl err
      | Inr (metrics_df, s7) \<Rightarrow>
          Inr (\<lparr>customers = customers_df,
                plans = plans_df,
                services = services_df,
                usage_rows = usage_df,
                billing_rows = billing_df,
                support_tickets = tickets_df,
                nps_surveys = nps_df,
                customer_metrics = metrics_df\<rparr>, s7)))))))"

section \<open>Example inputs\<close>

text \<open>
  An environment whose \<^verbatim>\<open>random\<close> tape holds the same raw draw \<open>c\<close> in every cell, so
  that each call of \<^verbatim>\<open>random.random()\<close> returns \<open>(c mod 2^53) / 2^53\<close>.
\<close>

definition const_env :: "int \<Rightarrow> env" where
  "const_env c =
     \<lparr>rand_tape = (\<lambda>i. c),
      normal_tape = (\<lambda>i. 0),
      numpy_tape = (\<lambda>i. 0),
      faker_tape = (\<lambda>i. 0),
      faker_text = (\<lambda>n. ''x''),
      today = 20000,
      clock = (\<lambda>i. i)\<rparr>"

text \<open>Raw draws that make \<^verbatim>\<open>random.random()\<close> about \<open>0.9\<close> and just below \<open>1\<close>.\<close>

definition draw_090 :: int where
  "draw_090 = 8106479329266893"

definition draw_099 :: int where
  "draw_099 = 9007199254740991"

definition example_service :: service where
  "example_service =
     \<lparr>s_customer_id = ''CUST_000001'', s_service_id = ''SVC_00000001'', s_plan_id = ''PLAN_001'',
      s_plan_name = ''Basic Mobile'', s_service_type = ''Mobile'', s_monthly_fee = 3599 / 100,
      s_service_start_date = 19000, s_service_status = ''Active'', s_auto_pay = True,
      s_contract_length = 12, s_early_termination_fee = 0\<rparr>"

definition example_customer :: customer where
  "example_customer =
     \<lparr>c_customer_id = ''CUST_000001'', c_first_name = ''Ada'', c_last_name = ''Doe'',
      c_email = ''ada@example.org'', c_phone_number = ''555-0100'', c_date_of_birth = 7000,
      c_gender = ''Other'', c_address = ''1 Main St'', c_city = ''Springfield'',
      c_state = ''Ohio'', c_zip_code = ''45501'', c_country = ''USA'',
      c_account_creation_date = 19000, c_customer_segment = ''Individual'',
      c_account_status = ''Active'', c_preferred_contact_method = ''Email'',
      c_credit_score = 700, c_annual_income = 50000\<rparr>"

text \<open>A ticket and a survey of another customer, so that both tables have columns.\<close>

definition other_ticket :: ticket where
  "other_ticket =
     \<lparr>t_customer_id = ''CUST_000002'', t_ticket_id = ''TKT_00000001'', t_creation_date = 19500,
      t_issue_type = ''Billing'', t_priority = ''Low'', t_status = ''Closed'',
      t_resolution_time_hours = 3, t_satisfaction_rating = 4, t_channel = ''Phone'',
      t_agent_id = ''AGT_001''\<rparr>"

definition other_survey :: survey where
  "other_survey =
     \<lparr>n_customer_id = ''CUST_000002'', n_survey_id = ''NPS_00000001'', n_survey_date = 19600,
      n_nps_score = 9, n_category = ''Promoter'', n_feedback = None\<rparr>"

definition other_billing :: billing where
  "other_billing =
     \<lparr>b_customer_id = ''CUST_000002'', b_service_id = ''SVC_00000002'',
      b_bill_date = \<lparr>dt_day = 20000, dt_micro = 0\<rparr>,
      b_due_date = \<lparr>dt_day = 20015, dt_micro = 0\<rparr>,
      b_amount_due = 50, b_amount_paid = 50,
      b_payment_date = Some \<lparr>dt_day = 20014, dt_micro = 0\<rparr>,
      b_payment_method = ''Check'', b_payment_status = ''Paid'', b_late_fee = 0\<rparr>"

text \<open>The only survey of \<open>example_customer\<close>, with an NPS score of 0.\<close>

definition zero_survey :: survey where
  "zero_survey =
     \<lparr>n_customer_id = ''CUST_000001'', n_survey_id = ''NPS_00000002'', n_survey_date = 19700,
      n_nps_score = 0, n_category = ''Detractor'', n_feedback = None\<rparr>"

text \<open>A run on 2024-03-31 (day 19813).\<close>

definition march_31_env :: env where
  "march_31_env = (const_env 0)\<lparr>today := 19813\<rparr>"

section \<open>The churn risk score as the specification states it\<close>

text \<open>
  The sum of four independent flags, capped at 100: 20 for more than 3 tickets, 25 for a
  mean satisfaction below 3, 30 for a latest NPS score of at most 6 (a score of 0
  included), 25 for more than 2 bills whose status is Late or Unpaid.
\<close>

definition churn_claimed :: "nat \<Rightarrow> rat \<Rightarrow> int option \<Rightarrow> billing list \<Rightarrow> int" where
  "churn_claimed n_tickets mean_satisfaction latest_nps customer_billing =
     min 100
       ((if 3 < n_tickets then 20 else 0) +
        (if mean_satisfaction < 3 then 25 else 0) +
        (case latest_nps of None \<Rightarrow> 0 | Some n \<Rightarrow> if n \<le> 6 then 30 else 0) +
        (if 2 < length (filter (\<lambda>b. b_payment_status b \<in> {''Late'', ''Unpaid''}) customer_billing)
         then 25 else 0))"

section \<open>Auxiliary notions for the proofs\<close>

text \<open>A subscription row that carries the identifying fields of customer \<open>c\<close> and plan \<open>p\<close>.\<close>

definition from_plan :: "customer \<Rightarrow> plan \<Rightarrow> service \<Rightarrow> bool" where
  "from_plan c p v \<longleftrightarrow>
     s_plan_id v = p_plan_id p \<and> s_service_type v = p_service_type p \<and>
     s_customer_id v = c_customer_id c \<and> s_monthly_fee v = p_monthly_fee p"

text \<open>The number a string of decimal digits denotes.\<close>

definition dec_value :: "string \<Rightarrow> nat" where
  "dec_value cs = foldl (\<lambda>a c. 10 * a + (of_char c - 48)) 0 cs"

text \<open>
  The \<^verbatim>\<open>usage_month\<close> of the row for \<open>month_offset\<close>: the year and month of the day
  \<open>30 * month_offset\<close> days before today.
\<close>

definition usage_month_of :: "env \<Rightarrow> nat \<Rightarrow> string" where
  "usage_month_of e month_offset =
     strftime_Ym \<lparr>dt_day = today e - 30 * int month_offset, dt_micro = 0\<rparr>"

section \<open>Properties of the random sources\<close>

lemma random_range: "0 \<le> fst (random e s) \<and> fst (random e s) < 1"
  by (simp add: random_def)

lemma randbelow_less: "0 < n \<Longrightarrow> fst (randbelow n e s) < n"
  by (simp add: randbelow_def nat_less_iff)

lemma choice_mem: "xs \<noteq> [] \<Longrightarrow> fst (choice xs e s) \<in> set xs"
  using randbelow_less [of "length xs" e s]
  by (simp add: choice_def split_def)

lemma randint_range: "a \<le> b \<Longrightarrow> a \<le> fst (randint a b e s) \<and> fst (randint a b e s) \<le> b"
  using randbelow_less [of "nat (b - a + 1)" e s]
  by (auto simp add: randint_def split_def)

lemma uniform_range: "a \<le> b \<Longrightarrow> a \<le> fst (uniform a b e s) \<and> fst (uniform a b e s) \<le> b"
proof -
  assume ab: "a \<le> b"
  obtain u where u: "u = fst (random e s)" by simp
  have "0 \<le> u" "u \<le> 1" using random_range [of e s] u by auto
  then have "0 \<le> (b - a) * u" "(b - a) * u \<le> (b - a) * 1"
    using ab mult_left_mono [of u 1 "b - a"] by auto
  then show ?thesis using u by (simp add: uniform_def split_def)
qed

lemma bisect_le: "bisect cs x \<le> length cs"
  by (induction cs) auto

lemma choices_mem: "xs \<noteq> [] \<Longrightarrow> fst (choices xs ws e s) \<in> set xs"
proof -
  assume ne: "xs \<noteq> []"
  have "bisect (take (length xs - 1) cum) x < length xs" for cum x
    using bisect_le [of "take (length xs - 1) cum" x] ne
    by (cases xs) (auto simp: min_def split: if_splits)
  then show ?thesis by (simp add: choices_def split_def Let_def)
qed

section \<open>Billing rows\<close>

lemma new_billing_status:
  "b_payment_status (fst (new_billing e svc k s)) \<in> {''Paid'', ''Late'', ''Unpaid''}"
  using choices_mem [of "[''Paid'', ''Late'', ''Unpaid'']"]
  by (simp add: new_billing_def split_def Let_def)


lemma payment_date_for_Paid:
  "\<exists>d. fst (payment_date_for ''Paid'' due e s) = Some (plus_days due d) \<and> - 5 \<le> d \<and> d \<le> 5"
  using randint_range [of "- 5" 5 e s]
  by (auto simp: payment_date_for_def split_def Let_def)

lemma payment_date_for_Late:
  "\<exists>d. fst (payment_date_for ''Late'' due e s) = Some (plus_days due d) \<and> 1 \<le> d \<and> d \<le> 15"
  using randint_range [of 1 15 e s]
  by (auto simp: payment_date_for_def split_def Let_def)

lemma payment_date_for_Unpaid: "fst (payment_date_for ''Unpaid'' due e s) = None"
  by (simp add: payment_date_for_def)


lemma new_billing_rules:
  "b_payment_status (fst (new_billing e svc k s)) \<in> {''Paid'', ''Late'', ''Unpaid''} \<and>
   (b_payment_status (fst (new_billing e svc k s)) = ''Paid'' \<longrightarrow>
      (\<exists>d. b_payment_date (fst (new_billing e svc k s)) =
             Some (plus_days (b_due_date (fst (new_billing e svc k s))) d) \<and> - 5 \<le> d \<and> d \<le> 5)) \<and>
   (b_payment_status (fst (new_billing e svc k s)) = ''Late'' \<longrightarrow>
      (\<exists>d. b_payment_date (fst (new_billing e svc k s)) =
             Some (plus_days (b_due_date (fst (new_billing e svc k s))) d) \<and> 1 \<le> d \<and> d \<le> 15)) \<and>
   (b_payment_status (fst (new_billing e svc k s)) = ''Unpaid'' \<longrightarrow>
      b_payment_date (fst (new_billing e svc k s)) = None) \<and>
   (b_late_fee (fst (new_billing e svc k s)) = 25 \<longleftrightarrow>
      b_payment_status (fst (new_billing e svc k s)) = ''Late'') \<and>
   (b_late_fee (fst (new_billing e svc k s)) = 0 \<longleftrightarrow>
      b_payment_status (fst (new_billing e svc k s)) \<noteq> ''Late'')"
  using new_billing_status [of e svc k s]
    payment_date_for_Paid payment_date_for_Late payment_date_for_Unpaid
  by (simp add: new_billing_def split_def Let_def)

lemma billing_months_acc:
  "billing_months e svc ks acc s =
     (acc @ fst (billing_months e svc ks [] s), snd (billing_months e svc ks [] s))"
proof (induction ks arbitrary: acc s)
  case Nil
  show ?case by simp
next
  case (Cons k ks)
  show ?case
    using Cons.IH [of "acc @ [fst (new_billing e svc k s)]" "snd (new_billing e svc k s)"]
      Cons.IH [of "[fst (new_billing e svc k s)]" "snd (new_billing e svc k s)"]
    by (simp add: split_def Let_def)
qed

lemma billing_loop_acc:
  "billing_loop e svcs acc s =
     (acc @ fst (billing_loop e svcs [] s), snd (billing_loop e svcs [] s))"
proof (induction svcs arbitrary: acc s)
  case Nil
  show ?case by simp
next
  case (Cons svc svcs)
  show ?case
    using Cons.IH [of "fst (billing_months e svc [0..<12] acc s)" "snd (billing_months e svc [0..<12] acc s)"]
      Cons.IH [of "fst (billing_months e svc [0..<12] [] s)" "snd (billing_months e svc [0..<12] [] s)"]
      billing_months_acc [of e svc "[0..<12]" acc s]
    by (simp add: split_def Let_def)
qed

lemma billing_months_rows:
  "b \<in> set (fst (billing_months e svc ks [] s)) \<Longrightarrow> \<exists>k s'. b = fst (new_billing e svc k s')"
proof (induction ks arbitrary: s)
  case Nil
  then show ?case by simp
next
  case (Cons k ks)
  then show ?case
    using billing_months_acc [of e svc ks "[fst (new_billing e svc k s)]" "snd (new_billing e svc k s)"]
    by (auto simp: split_def Let_def)
qed

lemma billing_loop_rows:
  "b \<in> set (fst (billing_loop e svcs [] s)) \<Longrightarrow>
     \<exists>svc k s'. svc \<in> set svcs \<and> b = fst (new_billing e svc k s')"
proof (induction svcs arbitrary: s)
  case Nil
  then show ?case by simp
next
  case (Cons svc svcs)
  have split: "fst (billing_loop e (svc # svcs) [] s) =
      fst (billing_months e svc [0..<12] [] s) @
      fst (billing_loop e svcs [] (snd (billing_months e svc [0..<12] [] s)))"
    using billing_loop_acc [of e svcs "fst (billing_months e svc [0..<12] [] s)"]
    by (simp add: split_def Let_def)
  from Cons.prems split consider
    "b \<in> set (fst (billing_months e svc [0..<12] [] s))"
    | "b \<in> set (fst (billing_loop e svcs [] (snd (billing_months e svc [0..<12] [] s))))"
    by auto
  then show ?case
  proof cases
    case 1
    then show ?thesis using billing_months_rows by fastforce
  next
    case 2
    then show ?thesis using Cons.IH by fastforce
  qed
qed

lemma generate_billing_rows:
  "b \<in> set (fst (generate_billing_data e svcs s)) \<Longrightarrow>
     \<exists>svc k s'. svc \<in> set svcs \<and> b = fst (new_billing e svc k s')"
  using billing_loop_rows by (simp add: generate_billing_data_def)

lemma generate_billing_first:
  "fst (new_billing e svc 0 s) \<in> set (fst (generate_billing_data e (svc # svcs) s))"
proof -
  have "[0..<12] = 0 # [1..<12]" by (simp add: upt_conv_Cons)
  then have "fst (new_billing e svc 0 s) \<in> set (fst (billing_months e svc [0..<12] [] s))"
    using billing_months_acc [of e svc "[1..<12]" "[fst (new_billing e svc 0 s)]"]
    by (simp add: split_def Let_def)
  then show ?thesis
    using billing_loop_acc [of e svcs "fst (billing_months e svc [0..<12] [] s)"]
    by (simp add: generate_billing_data_def split_def Let_def)
qed


lemma new_billing_status_draw:
  "\<exists>s'. b_payment_status (fst (new_billing e svc k s)) =
          fst (choices [''Paid'', ''Late'', ''Unpaid''] [85, 10, 5] e s')"
  by (simp add: new_billing_def split_def Let_def) blast

lemma choices_const_env:
  "fst (choices xs ws (const_env c) s) =
     xs ! bisect (take (length xs - 1) (accumulate 0 ws))
            (of_int (c mod 2 ^ 53) / 2 ^ 53 * last (accumulate 0 ws))"
  by (simp add: choices_def random_def const_env_def Let_def)

lemma status_const_env_Paid:
  "b_payment_status (fst (new_billing (const_env 0) svc k s)) = ''Paid''"
  using new_billing_status_draw [of "const_env 0" svc k s]
  by (auto simp: choices_const_env)

lemma status_const_env_Late:
  "b_payment_status (fst (new_billing (const_env draw_090) svc k s)) = ''Late''"
  using new_billing_status_draw [of "const_env draw_090" svc k s]
  by (auto simp: choices_const_env draw_090_def)

lemma status_const_env_Unpaid:
  "b_payment_status (fst (new_billing (const_env draw_099) svc k s)) = ''Unpaid''"
  using new_billing_status_draw [of "const_env draw_099" svc k s]
  by (auto simp: choices_const_env draw_099_def)

text \<open>
  C6. Every row of \<^verbatim>\<open>generate_billing_data\<close> has one of the three payment statuses.
  A Paid row has a payment date within 5 days of the due date, either side; a Late row has
  a payment date 1 to 15 days after the due date; an Unpaid row has no payment date. The
  late fee is 25 exactly when the status is Late, and 0 otherwise.
\<close>

theorem billing_payment_rules:
  assumes "b \<in> set (fst (generate_billing_data e svcs s))"
  shows "b_payment_status b \<in> {''Paid'', ''Late'', ''Unpaid''} \<and>
   (b_payment_status b = ''Paid'' \<longrightarrow>
      (\<exists>d. b_payment_date b = Some (plus_days (b_due_date b) d) \<and> - 5 \<le> d \<and> d \<le> 5)) \<and>
   (b_payment_status b = ''Late'' \<longrightarrow>
      (\<exists>d. b_payment_date b = Some (plus_days (b_due_date b) d) \<and> 1 \<le> d \<and> d \<le> 15)) \<and>
   (b_payment_status b = ''Unpaid'' \<longrightarrow> b_payment_date b = None) \<and>
   (b_late_fee b = 25 \<longleftrightarrow> b_payment_status b = ''Late'') \<and>
   (b_late_fee b = 0 \<longleftrightarrow> b_payment_status b \<noteq> ''Late'')"
proof -
  from assms obtain svc k s' where "b = fst (new_billing e svc k s')"
    using generate_billing_rows by blast
  then show ?thesis using new_billing_rules [of e svc k s'] by simp
qed


theorem billing_payment_rules_witness:
  "fst (new_billing (const_env 0) example_service 0 pos0)
     \<in> set (fst (generate_billing_data (const_env 0) [example_service] pos0)) \<and>
   b_payment_status (fst (new_billing (const_env 0) example_service 0 pos0)) = ''Paid'' \<and>
   (\<exists>d. b_payment_date (fst (new_billing (const_env 0) example_service 0 pos0)) =
          Some (plus_days (b_due_date (fst (new_billing (const_env 0) example_service 0 pos0))) d)
        \<and> - 5 \<le> d \<and> d \<le> 5) \<and>
   b_late_fee (fst (new_billing (const_env 0) example_service 0 pos0)) = 0 \<and>
   fst (new_billing (const_env draw_090) example_service 0 pos0)
     \<in> set (fst (generate_billing_data (const_env draw_090) [example_service] pos0)) \<and>
   b_payment_status (fst (new_billing (const_env draw_090) example_service 0 pos0)) = ''Late'' \<and>
   (\<exists>d. b_payment_date (fst (new_billing (const_env draw_090) example_service 0 pos0)) =
          Some (plus_days (b_due_date (fst (new_billing (const_env draw_090) example_service 0 pos0))) d)
        \<and> 1 \<le> d \<and> d \<le> 15) \<and>
   b_late_fee (fst (new_billing (const_env draw_090) example_service 0 pos0)) = 25 \<and>
   fst (new_billing (const_env draw_099) example_service 0 pos0)
     \<in> set (fst (generate_billing_data (const_env draw_099) [example_service] pos0)) \<and>
   b_payment_status (fst (new_billing (const_env draw_099) example_service 0 pos0)) = ''Unpaid'' \<and>
   b_payment_date (fst (new_billing (const_env draw_099) example_service 0 pos0)) = None \<and>
   b_late_fee (fst (new_billing (const_env draw_099) example_service 0 pos0)) = 0"
  using billing_payment_rules [OF generate_billing_first [of "const_env 0" example_service pos0 "[]"]]
    billing_payment_rules [OF generate_billing_first [of "const_env draw_090" example_service pos0 "[]"]]
    billing_payment_rules [OF generate_billing_first [of "const_env draw_099" example_service pos0 "[]"]]
    generate_billing_first [of "const_env 0" example_service pos0 "[]"]
    generate_billing_first [of "const_env draw_090" example_service pos0 "[]"]
    generate_billing_first [of "const_env draw_099" example_service pos0 "[]"]
  by (simp add: status_const_env_Paid status_const_env_Late status_const_env_Unpaid)

section \<open>Amounts paid and lifetime value\<close>

lemma round_half_even_ge: "\<lfloor>x\<rfloor> \<le> round_half_even x"
  by (simp add: round_half_even_def Let_def)

lemma py_round_pos: "2 \<le> x \<Longrightarrow> 0 < py_round x 2"
proof -
  assume "2 \<le> x"
  then have "(200::rat) \<le> x * 10 ^ 2" by simp
  then have "200 \<le> \<lfloor>x * 10 ^ 2\<rfloor>" by (simp add: le_floor_iff)
  then have "200 \<le> round_half_even (x * 10 ^ 2)"
    using round_half_even_ge [of "x * 10 ^ 2"] by linarith
  then show ?thesis by (simp add: py_round_def)
qed

lemma new_billing_paid:
  "(b_payment_status (fst (new_billing e svc k s)) \<in> {''Paid'', ''Late''} \<longrightarrow>
      b_amount_paid (fst (new_billing e svc k s)) = b_amount_due (fst (new_billing e svc k s))) \<and>
   (b_payment_status (fst (new_billing e svc k s)) \<notin> {''Paid'', ''Late''} \<longrightarrow>
      b_amount_paid (fst (new_billing e svc k s)) = 0)"
  by (simp add: new_billing_def split_def Let_def)

lemma new_billing_due_pos:
  assumes "0 \<le> s_monthly_fee svc"
  shows "0 < b_amount_due (fst (new_billing e svc k s))"
proof -
  have fees: "2 \<le> fst (uniform 2 8 e s1)" for s1
    using uniform_range [of 2 8 e s1] by simp
  have extra: "0 \<le> fst (uniform 10 50 e s1)" for s1
    using uniform_range [of 10 50 e s1] by simp
  define s1 where "s1 = snd (now e s)"
  define s2 where "s2 = snd (uniform 2 8 e s1)"
  define s3 where "s3 = snd (random e s2)"
  define base where
    "base = s_monthly_fee svc + s_monthly_fee svc * (8 / 100) + fst (uniform 2 8 e s1)"
  have due: "b_amount_due (fst (new_billing e svc k s)) =
      py_round (if fst (random e s2) < 15 / 100 then base + fst (uniform 10 50 e s3) else base) 2"
    by (simp add: new_billing_def split_def Let_def s1_def s2_def s3_def base_def)
  have "0 \<le> s_monthly_fee svc * (8 / 100)" using assms by simp
  then have "2 \<le> base" using assms fees [of s1] by (simp add: base_def)
  then show ?thesis using due extra [of s3] by (auto intro: py_round_pos)
qed

lemma sum_paid_eq_due:
  assumes "\<forall>b\<in>set bs. (b_payment_status b \<in> {''Paid'', ''Late''} \<longrightarrow> b_amount_paid b = b_amount_due b) \<and>
                        (b_payment_status b \<notin> {''Paid'', ''Late''} \<longrightarrow> b_amount_paid b = 0)"
  shows "sum_list (map b_amount_paid (filter P bs)) =
         sum_list (map b_amount_due (filter (\<lambda>b. P b \<and> b_payment_status b \<in> {''Paid'', ''Late''}) bs))"
  using assms by (induction bs) auto

lemma customer_metric_ltv:
  assumes "customer_metric e sv bl tk nps c s = Inr (m, s')"
  shows "m_total_lifetime_value m =
     py_round (sum_list (map b_amount_paid (filter (\<lambda>b. b_customer_id b = c_customer_id c) bl))) 2"
  using assms
  by (auto simp: customer_metric_def rows_of_customer_def Let_def now_def split: if_splits)

lemma customer_metric_ok:
  assumes "sv \<noteq> []" "bl \<noteq> []" "tk \<noteq> []" "nps \<noteq> []"
  shows "\<exists>m s'. customer_metric e sv bl tk nps c s = Inr (m, s')"
  using assms
  by (simp add: customer_metric_def rows_of_customer_def Let_def now_def)

lemma customer_metric_KeyError:
  assumes "sv = [] \<or> bl = [] \<or> tk = [] \<or> nps = []"
  shows "customer_metric e sv bl tk nps c s = Inl (KeyError ''customer_id'')"
  using assms
  by (auto simp: customer_metric_def rows_of_customer_def Let_def now_def)


text \<open>
  C9. In every row of \<^verbatim>\<open>generate_billing_data\<close> the amount paid equals the amount due
  when the status is Paid or Late and is 0 when it is Unpaid; with non-negative monthly
  fees the amount due is positive, so the two amounts agree exactly for those two statuses.
  Hence the \<^verbatim>\<open>total_lifetime_value\<close> that \<^verbatim>\<open>calculate_customer_metrics\<close> derives from
  these rows is the rounded sum of the full amounts due of the customer's Paid and Late
  bills.
\<close>

theorem billing_amount_paid_lifetime_value:
  assumes "billing_df = fst (generate_billing_data e svcs s)"
  shows "(\<forall>b\<in>set billing_df.
            (b_payment_status b \<in> {''Paid'', ''Late''} \<longrightarrow> b_amount_paid b = b_amount_due b) \<and>
            (b_payment_status b = ''Unpaid'' \<longrightarrow> b_amount_paid b = 0) \<and>
            ((\<forall>v\<in>set svcs. 0 \<le> s_monthly_fee v) \<longrightarrow>
               (b_amount_paid b = b_amount_due b \<longleftrightarrow> b_payment_status b \<in> {''Paid'', ''Late''}))) \<and>
         (\<forall>e' sv tk nps c s1 m s2.
            customer_metric e' sv billing_df tk nps c s1 = Inr (m, s2) \<longrightarrow>
            m_total_lifetime_value m =
              py_round (sum_list (map b_amount_due
                (filter (\<lambda>b. b_customer_id b = c_customer_id c \<and>
                              b_payment_status b \<in> {''Paid'', ''Late''}) billing_df))) 2)"
proof -
  have row: "(b_payment_status b \<in> {''Paid'', ''Late''} \<longrightarrow> b_amount_paid b = b_amount_due b) \<and>
             (b_payment_status b \<notin> {''Paid'', ''Late''} \<longrightarrow> b_amount_paid b = 0) \<and>
             ((\<forall>v\<in>set svcs. 0 \<le> s_monthly_fee v) \<longrightarrow> 0 < b_amount_due b)"
    if "b \<in> set billing_df" for b
  proof -
    from that assms obtain svc k s' where svc: "svc \<in> set svcs" and b: "b = fst (new_billing e svc k s')"
      using generate_billing_rows by blast
    show ?thesis
      using new_billing_paid [of e svc k s'] new_billing_due_pos [of svc e k s'] svc b by auto
  qed
  have rows: "\<forall>b\<in>set billing_df.
      (b_payment_status b \<in> {''Paid'', ''Late''} \<longrightarrow> b_amount_paid b = b_amount_due b) \<and>
      (b_payment_status b \<notin> {''Paid'', ''Late''} \<longrightarrow> b_amount_paid b = 0)"
    using row by blast
  have ltv: "m_total_lifetime_value m =
      py_round (sum_list (map b_amount_due
        (filter (\<lambda>b. b_customer_id b = c_customer_id c \<and>
                      b_payment_status b \<in> {''Paid'', ''Late''}) billing_df))) 2"
    if "customer_metric e' sv billing_df tk nps c s1 = Inr (m, s2)" for e' sv tk nps c s1 m s2
    using customer_metric_ltv [OF that] sum_paid_eq_due [OF rows] by simp
  have first: "\<forall>b\<in>set billing_df.
            (b_payment_status b \<in> {''Paid'', ''Late''} \<longrightarrow> b_amount_paid b = b_amount_due b) \<and>
            (b_payment_status b = ''Unpaid'' \<longrightarrow> b_amount_paid b = 0) \<and>
            ((\<forall>v\<in>set svcs. 0 \<le> s_monthly_fee v) \<longrightarrow>
               (b_amount_paid b = b_amount_due b \<longleftrightarrow> b_payment_status b \<in> {''Paid'', ''Late''}))"
    using row by fastforce
  show ?thesis using first ltv by blast
qed

theorem billing_amount_paid_lifetime_value_witness:
  "fst (new_billing (const_env draw_090) example_service 0 pos0)
     \<in> set (fst (generate_billing_data (const_env draw_090) [example_service] pos0)) \<and>
   b_payment_status (fst (new_billing (const_env draw_090) example_service 0 pos0)) = ''Late'' \<and>
   b_amount_paid (fst (new_billing (const_env draw_090) example_service 0 pos0)) =
     b_amount_due (fst (new_billing (const_env draw_090) example_service 0 pos0)) \<and>
   0 \<le> s_monthly_fee example_service \<and>
   (\<exists>m s2. customer_metric (const_env draw_090) [example_service]
              (fst (generate_billing_data (const_env draw_090) [example_service] pos0))
              [other_ticket] [other_survey] example_customer pos0 = Inr (m, s2) \<and>
            m_total_lifetime_value m =
              py_round (sum_list (map b_amount_due
                (filter (\<lambda>b. b_customer_id b = c_customer_id example_customer \<and>
                              b_payment_status b \<in> {''Paid'', ''Late''})
                   (fst (generate_billing_data (const_env draw_090) [example_service] pos0))))) 2)"
proof -
  let ?bl = "fst (generate_billing_data (const_env draw_090) [example_service] pos0)"
  let ?b = "fst (new_billing (const_env draw_090) example_service 0 pos0)"
  have mem: "?b \<in> set ?bl" by (rule generate_billing_first)
  then have ne: "?bl \<noteq> []" by auto
  obtain m s2 where m: "customer_metric (const_env draw_090) [example_service] ?bl
      [other_ticket] [other_survey] example_customer pos0 = Inr (m, s2)"
    using customer_metric_ok [OF _ ne, of "[example_service]" "[other_ticket]" "[other_survey]"]
    by blast
  have fee: "0 \<le> s_monthly_fee example_service" by (simp add: example_service_def)
  note inst = billing_amount_paid_lifetime_value
    [OF refl, of "const_env draw_090" "[example_service]" pos0]
  have st: "b_payment_status ?b = ''Late''" by (rule status_const_env_Late)
  from inst mem st have paid: "b_amount_paid ?b = b_amount_due ?b" by auto
  from inst m have ltv: "m_total_lifetime_value m =
      py_round (sum_list (map b_amount_due
        (filter (\<lambda>b. b_customer_id b = c_customer_id example_customer \<and>
                      b_payment_status b \<in> {''Paid'', ''Late''}) ?bl))) 2"
    by blast
  show ?thesis using mem st paid fee m ltv by blast
qed

section \<open>Customer metrics\<close>

lemma churn_risk_bounds:
  "0 \<le> churn_risk n a l bl \<and> churn_risk n a l bl \<le> 100"
  by (simp add: churn_risk_def Let_def)

lemma upsell_bounds:
  "0 \<le> upsell n r a l \<and> upsell n r a l \<le> 100"
  by (simp add: upsell_def Let_def)

lemma customer_metric_scores:
  assumes "customer_metric e sv bl tk nps c s = Inr (m, s')"
  shows "0 \<le> m_churn_risk_score m \<and> m_churn_risk_score m \<le> 100 \<and>
         0 \<le> m_upsell_score m \<and> m_upsell_score m \<le> 100"
  using assms
  by (auto simp: customer_metric_def rows_of_customer_def Let_def now_def
      churn_risk_bounds upsell_bounds split: if_splits)

lemma metrics_loop_rows:
  assumes "metrics_loop e sv bl tk nps cs acc s = Inr (rows, s')"
  shows "\<exists>new. rows = acc @ new \<and>
           list_all2 (\<lambda>c m. \<exists>s1 s2. customer_metric e sv bl tk nps c s1 = Inr (m, s2)) cs new"
  using assms
proof (induction cs arbitrary: acc s)
  case Nil
  then show ?case by simp
next
  case (Cons c cs)
  from Cons.prems obtain m s1 where
    m: "customer_metric e sv bl tk nps c s = Inr (m, s1)" and
    rest: "metrics_loop e sv bl tk nps cs (acc @ [m]) s1 = Inr (rows, s')"
    by (auto split: sum.splits)
  from Cons.IH [OF rest] obtain new where
    new: "rows = (acc @ [m]) @ new"
      "list_all2 (\<lambda>c m. \<exists>s1 s2. customer_metric e sv bl tk nps c s1 = Inr (m, s2)) cs new"
    by blast
  have "list_all2 (\<lambda>c m. \<exists>s1 s2. customer_metric e sv bl tk nps c s1 = Inr (m, s2)) (c # cs) (m # new)"
    using m new(2) by auto
  then show ?case using new(1) by (intro exI [of _ "m # new"]) simp
qed

lemma metrics_loop_ok:
  assumes "sv \<noteq> []" "bl \<noteq> []" "tk \<noteq> []" "nps \<noteq> []"
  shows "\<exists>rows s'. metrics_loop e sv bl tk nps cs acc s = Inr (rows, s')"
proof (induction cs arbitrary: acc s)
  case Nil
  show ?case by simp
next
  case (Cons c cs)
  obtain m s1 where "customer_metric e sv bl tk nps c s = Inr (m, s1)"
    using customer_metric_ok [OF assms] by blast
  then show ?case using Cons.IH [of "acc @ [m]" s1] by simp
qed

lemma metrics_loop_KeyError:
  assumes "sv = [] \<or> bl = [] \<or> tk = [] \<or> nps = []"
  shows "metrics_loop e sv bl tk nps (c # cs) acc s = Inl (KeyError ''customer_id'')"
  using customer_metric_KeyError [OF assms] by simp

lemma calculate_customer_metrics_rows:
  assumes "calculate_customer_metrics e custs sv bl tk nps s = Inr (rows, s')"
  shows "list_all2 (\<lambda>c m. \<exists>s1 s2. customer_metric e sv bl tk nps c s1 = Inr (m, s2)) custs rows"
  using metrics_loop_rows [of e sv bl tk nps custs "[]" s rows s'] assms
  by (simp add: calculate_customer_metrics_def)

text \<open>
  C8. Every row that \<^verbatim>\<open>calculate_customer_metrics\<close> returns has a churn risk score and an
  upsell score between 0 and 100.
\<close>

theorem metric_scores_in_range:
  assumes "calculate_customer_metrics e custs sv bl tk nps s = Inr (rows, s')"
    and "m \<in> set rows"
  shows "0 \<le> m_churn_risk_score m \<and> m_churn_risk_score m \<le> 100 \<and>
         0 \<le> m_upsell_score m \<and> m_upsell_score m \<le> 100"
proof -
  from calculate_customer_metrics_rows [OF assms(1)] assms(2)
  obtain c s1 s2 where "customer_metric e sv bl tk nps c s1 = Inr (m, s2)"
    by (auto simp: list_all2_conv_all_nth in_set_conv_nth)
  from customer_metric_scores [OF this] show ?thesis .
qed

theorem metric_scores_in_range_witness:
  "\<exists>rows s' m.
     calculate_customer_metrics (const_env 0) [example_customer] [example_service] [other_billing]
       [other_ticket] [zero_survey] pos0 = Inr (rows, s') \<and>
     m \<in> set rows \<and>
     0 \<le> m_churn_risk_score m \<and> m_churn_risk_score m \<le> 100 \<and>
     0 \<le> m_upsell_score m \<and> m_upsell_score m \<le> 100"
proof -
  obtain rows s' where r: "calculate_customer_metrics (const_env 0) [example_customer]
      [example_service] [other_billing] [other_ticket] [zero_survey] pos0 = Inr (rows, s')"
    using metrics_loop_ok [of "[example_service]" "[other_billing]" "[other_ticket]" "[zero_survey]"
        "const_env 0" "[example_customer]" "[]" pos0]
    unfolding calculate_customer_metrics_def by blast
  from calculate_customer_metrics_rows [OF r] obtain m where m: "m \<in> set rows"
    by (auto simp: list_all2_Cons1)
  show ?thesis using metric_scores_in_range [OF r m] r m by blast
qed

lemma py_round_int: "py_round (of_int n) k = of_int n"
proof -
  have "round_half_even (of_int (n * 10 ^ k)) = n * 10 ^ k"
    by (simp add: round_half_even_def Let_def del: of_int_mult of_int_power)
  then show ?thesis by (simp add: py_round_def)
qed

lemma customer_metric_defaults:
  assumes "customer_metric e sv bl tk nps c s = Inr (m, s')"
  shows "(filter (\<lambda>t. t_customer_id t = c_customer_id c) tk = [] \<longrightarrow>
            m_support_tickets_count m = 0 \<and> m_avg_satisfaction_rating m = 5 \<and>
            m_avg_resolution_time_hours m = 0) \<and>
         (filter (\<lambda>b. b_customer_id b = c_customer_id c) bl = [] \<longrightarrow> m_monthly_revenue m = 0)"
  using assms py_round_int [of 5 1] py_round_int [of 0 1]
  by (auto simp: customer_metric_def rows_of_customer_def Let_def now_def mean_def
      groupby_bill_date_sum_def split: if_splits)

lemma churn_risk_eq_claimed:
  assumes "l \<noteq> Some 0"
    and "\<forall>b\<in>set bl. b_payment_status b \<in> {''Paid'', ''Late'', ''Unpaid''}"
  shows "churn_risk n a l bl = churn_claimed n a l bl"
proof -
  have "filter (\<lambda>b. str_contains [''Late'', ''Unpaid''] (b_payment_status b)) bl =
        filter (\<lambda>b. b_payment_status b \<in> {''Late'', ''Unpaid''}) bl"
    using assms(2) by (intro filter_cong refl) (auto simp: str_contains_def)
  then show ?thesis
    using assms(1)
    by (cases l) (auto simp: churn_risk_def churn_claimed_def truthy_def Let_def)
qed

text \<open>
  C2. The claimed churn risk score adds 30 whenever the latest NPS score is at most 6, a
  score of 0 included. The code tests \<^verbatim>\<open>latest_nps and latest_nps <= 6\<close>, and 0 is false
  in Python: for a customer without tickets and without late bills whose only survey has
  the score 0, \<^verbatim>\<open>calculate_customer_metrics\<close> gives the churn risk score 0, where the
  claimed score is 30.
\<close>

theorem churn_risk_skips_nps_zero:
  "map_sum id (\<lambda>r. map (\<lambda>m. (m_support_tickets_count m, m_avg_satisfaction_rating m,
                               m_latest_nps_score m, m_churn_risk_score m)) (fst r))
     (calculate_customer_metrics (const_env 0) [example_customer] [example_service]
        [other_billing] [other_ticket] [zero_survey] pos0) = Inr [(0, 5, Some 0, 0)] \<and>
   churn_claimed 0 5 (Some 0) [] = 30"
  using py_round_int [of 5 1]
  by (simp add: calculate_customer_metrics_def customer_metric_def rows_of_customer_def Let_def now_def
      example_customer_def example_service_def other_billing_def other_ticket_def zero_survey_def
      latest_nps_of_def churn_risk_def truthy_def str_contains_def mean_def groupby_bill_date_sum_def
      churn_claimed_def)

section \<open>Customers and sampling\<close>

lemma date_between_ok:
  assumes "a \<le> b"
  shows "\<exists>d s'. date_between a b e s = (Inr d, s') \<and> a \<le> d \<and> d \<le> b"
proof -
  have pos: "0 < b - a + 1" using assms by simp
  have "0 \<le> faker_tape e (fp s) mod (b - a + 1)" "faker_tape e (fp s) mod (b - a + 1) < b - a + 1"
    using pos_mod_sign [OF pos] pos_mod_bound [OF pos] by blast+
  then have "faker_tape e (fp s) mod (b - a + 1) \<le> b - a" by linarith
  then show ?thesis using assms by (simp add: date_between_def)
qed

lemma new_customer_ok:
  "\<exists>c s'. new_customer e i s = Inr (c, s') \<and> c_account_creation_date c \<le> today e \<and>
     c_customer_id c = ''CUST_'' @ zero_pad 6 (i + 1)"
proof -
  define s10 where "s10 = snd (fake_text e (snd (fake_text e (snd (fake_text e (snd (fake_text e
     (snd (choice [''Male'', ''Female'', ''Other''] e (snd (date_of_birth e (snd (fake_text e
     (snd (fake_text e (snd (fake_text e (snd (fake_text e s)))))))))))))))))))"
  obtain d s11 where d: "date_between (five_years_ago e) (today e) e s10 = (Inr d, s11)"
      "d \<le> today e"
    using date_between_ok [of "five_years_ago e" "today e" e s10]
    by (auto simp: five_years_ago_def)
  show ?thesis
    using d by (simp add: new_customer_def split_def Let_def s10_def)
qed

lemma customers_loop_ok:
  "\<exists>cs s'. customers_loop e ns acc s = Inr (acc @ cs, s') \<and> length cs = length ns \<and>
     (\<forall>c\<in>set cs. c_account_creation_date c \<le> today e)"
proof (induction ns arbitrary: acc s)
  case Nil
  show ?case by simp
next
  case (Cons i ns)
  obtain c s1 where c: "new_customer e i s = Inr (c, s1)" "c_account_creation_date c \<le> today e"
    using new_customer_ok by blast
  obtain cs s' where cs: "customers_loop e ns (acc @ [c]) s1 = Inr ((acc @ [c]) @ cs, s')"
      "length cs = length ns" "\<forall>c\<in>set cs. c_account_creation_date c \<le> today e"
    using Cons.IH by blast
  show ?case
    using c cs by (intro exI [of _ "c # cs"] exI [of _ s']) simp
qed

lemma generate_customer_demographics_ok:
  "\<exists>cs s'. generate_customer_demographics e n s = Inr (cs, s') \<and> length cs = nat n \<and>
     (\<forall>c\<in>set cs. c_account_creation_date c \<le> today e)"
  using customers_loop_ok [of e "[0..<nat n]" "[]" s]
  by (simp add: generate_customer_demographics_def)

lemma generate_customer_demographics_nonpos:
  "n \<le> 0 \<Longrightarrow> generate_customer_demographics e n s = Inr ([], s)"
  by (simp add: generate_customer_demographics_def)

lemma draw_rows_length: "length (fst (draw_rows n xs e s)) = min n (length xs)"
proof (induction n arbitrary: xs s)
  case 0
  show ?case by simp
next
  case (Suc n)
  show ?case
  proof (cases "xs = []")
    case True
    then show ?thesis by simp
  next
    case False
    define i where "i = nat (numpy_tape e (np s) mod int (length xs))"
    have i: "i < length xs" using False by (simp add: i_def nat_less_iff)
    then have "length (take i xs @ drop (Suc i) xs) = length xs - 1" by simp
    then show ?thesis
      using False Suc.IH [of "take i xs @ drop (Suc i) xs" "s\<lparr>np := np s + 1\<rparr>"] i
      by (simp add: Let_def split_def i_def [symmetric])
  qed
qed

lemma draw_rows_subset: "set (fst (draw_rows n xs e s)) \<subseteq> set xs"
proof (induction n arbitrary: xs s)
  case 0
  show ?case by simp
next
  case (Suc n)
  show ?case
  proof (cases "xs = []")
    case True
    then show ?thesis by simp
  next
    case False
    define i where "i = nat (numpy_tape e (np s) mod int (length xs))"
    have i: "i < length xs" using False by (simp add: i_def nat_less_iff)
    have "set (take i xs @ drop (Suc i) xs) \<subseteq> set xs"
      using set_take_subset set_drop_subset by fastforce
    then show ?thesis
      using False Suc.IH [of "take i xs @ drop (Suc i) xs" "s\<lparr>np := np s + 1\<rparr>"] i
      by (auto simp: Let_def split_def i_def [symmetric])
  qed
qed

lemma sample_ok: "n \<le> length xs \<Longrightarrow> sample n xs e s = Inr (draw_rows n xs e s)"
  by (simp add: sample_def)

lemma sample_too_many:
  "length xs < n \<Longrightarrow>
     sample n xs e s =
       Inl (ValueError ''Cannot take a larger sample than population when replace=False'')"
  by (simp add: sample_def)

lemma sample_Inr:
  assumes "sample n xs e s = Inr (ys, s')"
  shows "length ys = n \<and> set ys \<subseteq> set xs"
proof -
  from assms have n: "n \<le> length xs" and ys: "ys = fst (draw_rows n xs e s)"
    by (auto simp: sample_def split: if_splits)
  show ?thesis using n ys draw_rows_length [of n xs e s] draw_rows_subset [of n xs e s] by simp
qed

lemma round_half_even_ge_1:
  assumes "1 / 2 < x"
  shows "1 \<le> round_half_even x"
proof (cases "1 \<le> \<lfloor>x\<rfloor>")
  case True
  then show ?thesis using round_half_even_ge [of x] by linarith
next
  case False
  moreover have "0 \<le> \<lfloor>x\<rfloor>" using assms by simp
  ultimately have "\<lfloor>x\<rfloor> = 0" by linarith
  then show ?thesis using assms by (simp add: round_half_even_def Let_def)
qed

lemma round_half_even_le:
  assumes "x \<le> of_int k"
  shows "round_half_even x \<le> k"
proof (cases "x = of_int k")
  case True
  then show ?thesis by (simp add: round_half_even_def)
next
  case False
  then have "x < of_int k" using assms by simp
  then have "\<lfloor>x\<rfloor> < k" by (simp add: floor_less_iff)
  then show ?thesis by (simp add: round_half_even_def Let_def)
qed

lemma sample_frac_ok:
  assumes "0 \<le> fr" "fr \<le> 1"
  shows "\<exists>sel s1. sample_frac fr xs e s = Inr (sel, s1) \<and> set sel \<subseteq> set xs \<and>
           (2 \<le> length xs \<and> 1 / 4 < fr \<longrightarrow> sel \<noteq> [])"
proof -
  define k where "k = nat (round_half_even (fr * of_nat (length xs)))"
  have "fr * of_nat (length xs) \<le> 1 * of_nat (length xs)"
    using assms(2) by (intro mult_right_mono) auto
  then have "fr * of_nat (length xs) \<le> of_int (int (length xs))" by simp
  then have "round_half_even (fr * of_nat (length xs)) \<le> int (length xs)"
    by (rule round_half_even_le)
  then have k: "k \<le> length xs" by (simp add: k_def)
  have eq: "sample_frac fr xs e s = Inr (draw_rows k xs e s)"
    using k by (simp add: sample_frac_def sample_ok k_def)
  have ne: "fst (draw_rows k xs e s) \<noteq> []" if "2 \<le> length xs" "1 / 4 < fr"
  proof -
    have "(2::rat) \<le> of_nat (length xs)" using that(1) by simp
    then have "fr * 2 \<le> fr * of_nat (length xs)" using that(2) by (intro mult_left_mono) auto
    then have "1 / 2 < fr * of_nat (length xs)" using that(2) by linarith
    then have "1 \<le> round_half_even (fr * of_nat (length xs))" by (rule round_half_even_ge_1)
    then have "1 \<le> k" by (simp add: k_def)
    then have "0 < length (fst (draw_rows k xs e s))"
      using that(1) by (auto simp: draw_rows_length)
    then show ?thesis by auto
  qed
  show ?thesis
    using eq ne draw_rows_subset [of k xs e s]
    by (intro exI [of _ "fst (draw_rows k xs e s)"] exI [of _ "snd (draw_rows k xs e s)"]) auto
qed

lemma sample_frac_single:
  assumes "length xs \<le> 1" "0 \<le> fr" "fr < 1 / 2"
  shows "sample_frac fr xs e s = Inr ([], s)"
proof -
  have "round_half_even (fr * of_nat (length xs)) = 0"
  proof (cases "length xs = 0")
    case True
    then show ?thesis by (simp add: round_half_even_def)
  next
    case False
    then have "length xs = 1" using assms(1) by linarith
    moreover have "\<lfloor>fr\<rfloor> = 0" using assms by (simp add: floor_eq_iff)
    ultimately show ?thesis using assms by (simp add: round_half_even_def Let_def)
  qed
  then show ?thesis by (simp add: sample_frac_def sample_def)
qed

section \<open>Subscriptions\<close>

lemma new_service_fields:
  assumes "new_service e c p n s = Inr (v, s')"
  shows "s_plan_id v = p_plan_id p \<and> s_service_type v = p_service_type p \<and>
         s_customer_id v = c_customer_id c \<and> s_monthly_fee v = p_monthly_fee p \<and>
         s_service_id v = ''SVC_'' @ zero_pad 8 (n + 1)"
  using assms
  by (auto simp: new_service_def split_def Let_def split: sum.splits prod.splits if_splits)

lemma new_service_ok:
  assumes "c_account_creation_date c \<le> today e"
  shows "\<exists>v s'. new_service e c p n s = Inr (v, s')"
proof -
  obtain d s1 where "date_between (c_account_creation_date c) (today e) e s = (Inr d, s1)"
    using date_between_ok [OF assms] by blast
  then show ?thesis by (simp add: new_service_def split_def Let_def)
qed

lemma add_services_rows:
  assumes "add_services e c ps acc s = Inr (res, s')"
  shows "\<exists>rows. res = acc @ rows \<and> list_all2 (from_plan c) ps rows \<and>
           map s_service_id rows =
             map (\<lambda>i. ''SVC_'' @ zero_pad 8 (length acc + i + 1)) [0 ..< length ps]"
  using assms
proof (induction ps arbitrary: acc s)
  case Nil
  then show ?case by simp
next
  case (Cons p ps)
  from Cons.prems obtain v s1 where
    v: "new_service e c p (length acc) s = Inr (v, s1)" and
    rest: "add_services e c ps (acc @ [v]) s1 = Inr (res, s')"
    by (auto split: sum.splits)
  from Cons.IH [OF rest] obtain rows where rows: "res = (acc @ [v]) @ rows"
      "list_all2 (from_plan c) ps rows"
      "map s_service_id rows =
         map (\<lambda>i. ''SVC_'' @ zero_pad 8 (length (acc @ [v]) + i + 1)) [0 ..< length ps]"
    by blast
  have fp: "from_plan c p v" using new_service_fields [OF v] by (simp add: from_plan_def)
  have id: "s_service_id v = ''SVC_'' @ zero_pad 8 (length acc + 0 + 1)"
    using new_service_fields [OF v] by simp
  show ?case
  proof (intro exI [of _ "v # rows"] conjI)
    show "res = acc @ v # rows" using rows(1) by simp
    show "list_all2 (from_plan c) (p # ps) (v # rows)" using fp rows(2) by simp
    show "map s_service_id (v # rows) =
        map (\<lambda>i. ''SVC_'' @ zero_pad 8 (length acc + i + 1)) [0 ..< length (p # ps)]"
      using id rows(3) by (simp add: map_upt_Suc del: upt_Suc)
  qed
qed

lemma add_services_ok:
  assumes "c_account_creation_date c \<le> today e"
  shows "\<exists>res s'. add_services e c ps acc s = Inr (res, s')"
proof (induction ps arbitrary: acc s)
  case Nil
  show ?case by simp
next
  case (Cons p ps)
  obtain v s1 where "new_service e c p (length acc) s = Inr (v, s1)"
    using new_service_ok [OF assms] by blast
  then show ?case using Cons.IH [of "acc @ [v]" s1] by simp
qed

lemma num_services_range: "fst (num_services e s) \<in> {1, 2, 3, 4}"
  using choices_mem [of "[1, 2, 3, 4::nat]" "[30, 40, 20, 10]" e s]
  by (simp add: num_services_def)

lemma available_plans_subset: "set (available_plans c ps) \<subseteq> set ps"
  by (auto simp: available_plans_def)

lemma available_plans_catalog: "7 \<le> length (available_plans c generate_service_plans)"
  by (simp add: available_plans_def generate_service_plans_def str_contains_def
      mobile_plan_def internet_plan_def tv_plan_def)

lemma selected_plans_ok:
  "\<exists>sel s1. selected_plans e ps c s = Inr (sel, s1) \<and>
     length sel = min (fst (num_services e s)) (length (available_plans c ps)) \<and>
     set sel \<subseteq> set ps"
proof -
  define k where "k = min (fst (num_services e s)) (length (available_plans c ps))"
  have k: "k \<le> length (available_plans c ps)" by (simp add: k_def)
  have eq: "selected_plans e ps c s =
      Inr (draw_rows k (available_plans c ps) e (snd (num_services e s)))"
    using sample_ok [OF k] by (simp add: selected_plans_def split_def Let_def k_def)
  have "length (fst (draw_rows k (available_plans c ps) e (snd (num_services e s)))) = k"
    using k by (simp add: draw_rows_length)
  moreover have "set (fst (draw_rows k (available_plans c ps) e (snd (num_services e s)))) \<subseteq> set ps"
    using draw_rows_subset available_plans_subset by fastforce
  ultimately show ?thesis
    using eq unfolding k_def
    by (intro exI [of _ "fst (draw_rows (min (fst (num_services e s)) (length (available_plans c ps)))
          (available_plans c ps) e (snd (num_services e s)))"]
        exI [of _ "snd (draw_rows (min (fst (num_services e s)) (length (available_plans c ps)))
          (available_plans c ps) e (snd (num_services e s)))"]) simp
qed

text \<open>Without the \<^verbatim>\<open>min\<close> the call would raise on a pool smaller than the sampled count.\<close>

lemma sample_unguarded_raises:
  assumes "length (available_plans c ps) < fst (num_services e s)"
  shows "sample (fst (num_services e s)) (available_plans c ps) e s1 =
     Inl (ValueError ''Cannot take a larger sample than population when replace=False'')"
  using assms by (rule sample_too_many)

lemma services_for_customer_rows:
  assumes "services_for_customer e ps c acc s = Inr (res, s')"
  shows "\<exists>rows. res = acc @ rows \<and>
           length rows = min (fst (num_services e s)) (length (available_plans c ps)) \<and>
           (\<forall>v\<in>set rows. \<exists>p\<in>set ps. from_plan c p v) \<and>
           map s_service_id rows =
             map (\<lambda>i. ''SVC_'' @ zero_pad 8 (length acc + i + 1)) [0 ..< length rows]"
proof -
  obtain sel s1 where sel: "selected_plans e ps c s = Inr (sel, s1)"
      "length sel = min (fst (num_services e s)) (length (available_plans c ps))"
      "set sel \<subseteq> set ps"
    using selected_plans_ok by blast
  let ?sel = sel
  from assms sel(1) have "add_services e c ?sel acc s1 = Inr (res, s')"
    by (simp add: services_for_customer_def)
  from add_services_rows [OF this] obtain rows where rows: "res = acc @ rows"
      "list_all2 (from_plan c) ?sel rows"
      "map s_service_id rows =
         map (\<lambda>i. ''SVC_'' @ zero_pad 8 (length acc + i + 1)) [0 ..< length ?sel]"
    by blast
  have len: "length rows = length ?sel" using rows(2) by (simp add: list_all2_lengthD)
  have "\<forall>v\<in>set rows. \<exists>p\<in>set ps. from_plan c p v"
  proof
    fix v assume "v \<in> set rows"
    then obtain i where i: "i < length rows" "v = rows ! i"
      by (auto simp: in_set_conv_nth)
    then have "?sel ! i \<in> set ?sel" "from_plan c (?sel ! i) v"
      using rows(2) len by (auto simp: list_all2_conv_all_nth)
    then obtain p where "p \<in> set ?sel" "from_plan c p v" by blast
    then show "\<exists>p\<in>set ps. from_plan c p v" using sel(3) by blast
  qed
  then show ?thesis using rows len sel(2) by (intro exI [of _ rows]) simp
qed

lemma services_for_customer_ok:
  assumes "c_account_creation_date c \<le> today e"
  shows "\<exists>res s'. services_for_customer e ps c acc s = Inr (res, s')"
proof -
  obtain sel s1 where "selected_plans e ps c s = Inr (sel, s1)"
    using selected_plans_ok by blast
  then show ?thesis
    using add_services_ok [OF assms, of sel acc s1] by (simp add: services_for_customer_def)
qed

lemma dec_value_snoc: "dec_value (cs @ [c]) = 10 * dec_value cs + (of_char c - 48)"
  by (simp add: dec_value_def)

lemma digit_char_value: "d < 10 \<Longrightarrow> of_char (digit_char d) - 48 = d"
  by (simp add: digit_char_def)

lemma dec_value_digits: "dec_value (digits n) = n"
proof (induction n rule: digits.induct)
  case (1 n)
  show ?case
  proof (cases "n < 10")
    case True
    then show ?thesis
      using digit_char_value [of n] by (simp add: digits.simps [of n] dec_value_def)
  next
    case False
    then show ?thesis
      using "1.IH" digit_char_value [of "n mod 10"]
      by (simp add: digits.simps [of n] dec_value_snoc)
  qed
qed

lemma dec_value_zeros: "dec_value (replicate k (CHR ''0'') @ cs) = dec_value cs"
proof -
  have "foldl (\<lambda>a c. 10 * a + (of_char c - 48)) 0 (replicate k (CHR ''0'')) = (0::nat)"
    by (induction k) simp_all
  then show ?thesis by (simp add: dec_value_def)
qed

lemma dec_value_zero_pad: "dec_value (zero_pad w n) = n"
  by (simp add: zero_pad_def dec_value_zeros dec_value_digits)

lemma zero_pad_inj: "zero_pad w m = zero_pad w n \<Longrightarrow> m = n"
  using dec_value_zero_pad by metis

lemma services_for_customer_ids:
  assumes "services_for_customer e ps c acc s = Inr (res, s')"
  shows "\<exists>rows. res = acc @ rows \<and>
           length rows = min (fst (num_services e s)) (length (available_plans c ps)) \<and>
           (\<forall>v\<in>set rows. \<exists>p\<in>set ps. from_plan c p v) \<and>
           (\<forall>i<length rows. s_service_id (rows ! i) = ''SVC_'' @ zero_pad 8 (length acc + i + 1))"
proof -
  from services_for_customer_rows [OF assms] obtain rows where rows: "res = acc @ rows"
      "length rows = min (fst (num_services e s)) (length (available_plans c ps))"
      "\<forall>v\<in>set rows. \<exists>p\<in>set ps. from_plan c p v"
      "map s_service_id rows =
         map (\<lambda>i. ''SVC_'' @ zero_pad 8 (length acc + i + 1)) [0 ..< length rows]"
    by blast
  have "s_service_id (rows ! i) = ''SVC_'' @ zero_pad 8 (length acc + i + 1)"
    if "i < length rows" for i
  proof -
    have "map s_service_id rows ! i =
        map (\<lambda>i. ''SVC_'' @ zero_pad 8 (length acc + i + 1)) [0 ..< length rows] ! i"
      using rows(4) by simp
    then show ?thesis using that by simp
  qed
  then show ?thesis using rows(1-3) by blast
qed

lemma services_loop_rows:
  assumes "services_loop e ps cs acc s = Inr (res, s')"
  shows "\<exists>rows. res = acc @ rows \<and>
           (\<forall>v\<in>set rows. \<exists>c\<in>set cs. \<exists>p\<in>set ps. from_plan c p v) \<and>
           (\<forall>i<length rows. s_service_id (rows ! i) = ''SVC_'' @ zero_pad 8 (length acc + i + 1))"
  using assms
proof (induction cs arbitrary: acc s)
  case Nil
  then show ?case by simp
next
  case (Cons c cs)
  from Cons.prems obtain mid s1 where
    mid: "services_for_customer e ps c acc s = Inr (mid, s1)" and
    rest: "services_loop e ps cs mid s1 = Inr (res, s')"
    by (auto split: sum.splits)
  from services_for_customer_ids [OF mid] obtain r1 where r1: "mid = acc @ r1"
      "\<forall>v\<in>set r1. \<exists>p\<in>set ps. from_plan c p v"
      "\<forall>i<length r1. s_service_id (r1 ! i) = ''SVC_'' @ zero_pad 8 (length acc + i + 1)"
    by blast
  from Cons.IH [OF rest] obtain r2 where r2: "res = mid @ r2"
      "\<forall>v\<in>set r2. \<exists>c\<in>set cs. \<exists>p\<in>set ps. from_plan c p v"
      "\<forall>i<length r2. s_service_id (r2 ! i) = ''SVC_'' @ zero_pad 8 (length mid + i + 1)"
    by blast
  show ?case
  proof (intro exI [of _ "r1 @ r2"] conjI)
    show "res = acc @ r1 @ r2" using r1(1) r2(1) by simp
    show "\<forall>v\<in>set (r1 @ r2). \<exists>c\<in>set (c # cs). \<exists>p\<in>set ps. from_plan c p v"
      using r1(2) r2(2) by auto
    show "\<forall>i<length (r1 @ r2).
        s_service_id ((r1 @ r2) ! i) = ''SVC_'' @ zero_pad 8 (length acc + i + 1)"
    proof (intro allI impI)
      fix i assume "i < length (r1 @ r2)"
      show "s_service_id ((r1 @ r2) ! i) = ''SVC_'' @ zero_pad 8 (length acc + i + 1)"
      proof (cases "i < length r1")
        case True
        then show ?thesis using r1(3) by (simp add: nth_append)
      next
        case False
        then have "i - length r1 < length r2" using \<open>i < length (r1 @ r2)\<close> by simp
        then have "s_service_id (r2 ! (i - length r1)) =
            ''SVC_'' @ zero_pad 8 (length mid + (i - length r1) + 1)"
          using r2(3) by blast
        then show ?thesis using False r1(1) by (simp add: nth_append)
      qed
    qed
  qed
qed

lemma services_loop_count:
  assumes "services_loop e generate_service_plans cs acc s = Inr (res, s')"
  shows "length acc + length cs \<le> length res \<and> length res \<le> length acc + 4 * length cs"
  using assms
proof (induction cs arbitrary: acc s)
  case Nil
  then show ?case by simp
next
  case (Cons c cs)
  from Cons.prems obtain mid s1 where
    mid: "services_for_customer e generate_service_plans c acc s = Inr (mid, s1)" and
    rest: "services_loop e generate_service_plans cs mid s1 = Inr (res, s')"
    by (auto split: sum.splits)
  from services_for_customer_ids [OF mid] obtain r1 where r1: "mid = acc @ r1"
      "length r1 = min (fst (num_services e s)) (length (available_plans c generate_service_plans))"
    by blast
  have "1 \<le> length r1 \<and> length r1 \<le> 4"
    using r1(2) num_services_range [of e s] available_plans_catalog [of c] by auto
  then show ?case using Cons.IH [OF rest] r1(1) by simp
qed

lemma services_loop_ok:
  assumes "\<forall>c\<in>set cs. c_account_creation_date c \<le> today e"
  shows "\<exists>res s'. services_loop e ps cs acc s = Inr (res, s')"
  using assms
proof (induction cs arbitrary: acc s)
  case Nil
  show ?case by simp
next
  case (Cons c cs)
  have "c_account_creation_date c \<le> today e" using Cons.prems by simp
  then obtain mid s1 where "services_for_customer e ps c acc s = Inr (mid, s1)"
    using services_for_customer_ok [of c e ps acc s] by blast
  then show ?case using Cons.IH [of mid s1] Cons.prems by simp
qed

lemma service_ids_distinct:
  assumes "\<forall>i<length rows. s_service_id (rows ! i) = ''SVC_'' @ zero_pad 8 (i + 1)"
  shows "distinct (map s_service_id rows)"
proof -
  have "map s_service_id rows ! i \<noteq> map s_service_id rows ! j"
    if "i < length rows" "j < length rows" "i \<noteq> j" for i j
    using that assms zero_pad_inj [of 8 "i + 1" "j + 1"] by auto
  then show ?thesis by (simp add: distinct_conv_nth)
qed

lemma catalog_types:
  "p \<in> set generate_service_plans \<Longrightarrow> p_service_type p \<in> {''Mobile'', ''Internet'', ''TV''}"
  by (auto simp: generate_service_plans_def mobile_plan_def internet_plan_def tv_plan_def)

lemma generate_customer_services_props:
  assumes "generate_customer_services e cs ps s = Inr (svcs, s')"
  shows "distinct (map s_service_id svcs) \<and>
         (\<forall>v\<in>set svcs. \<exists>c\<in>set cs. \<exists>p\<in>set ps. from_plan c p v)"
proof -
  from assms services_loop_rows [of e ps cs "[]" s svcs s']
  have rows: "\<forall>v\<in>set svcs. \<exists>c\<in>set cs. \<exists>p\<in>set ps. from_plan c p v"
      "\<forall>i<length svcs. s_service_id (svcs ! i) = ''SVC_'' @ zero_pad 8 (i + 1)"
    by (auto simp: generate_customer_services_def)
  show ?thesis using rows(1) service_ids_distinct [OF rows(2)] by blast
qed

lemma generate_customer_services_types:
  assumes "generate_customer_services e cs generate_service_plans s = Inr (svcs, s')"
    and "v \<in> set svcs"
  shows "s_service_type v \<in> {''Mobile'', ''Internet'', ''TV''}"
proof -
  from generate_customer_services_props [OF assms(1)] assms(2)
  obtain c p where "p \<in> set generate_service_plans" "from_plan c p v" by blast
  then show ?thesis using catalog_types [of p] by (simp add: from_plan_def)
qed

lemma today_const_env: "today (const_env c) = 20000"
  by (simp add: const_env_def)





section \<open>Usage rows and row counts\<close>

lemma new_usage_known:
  assumes "s_service_type v \<in> {''Mobile'', ''Internet'', ''TV''}"
  shows "\<exists>u. fst (new_usage e v d s) = Some u \<and> u_service_id u = s_service_id v \<and>
           u_customer_id u = s_customer_id v \<and> u_usage_month u = strftime_Ym d"
  using assms by (auto simp: new_usage_def split_def Let_def)

lemma new_usage_unknown:
  assumes "s_service_type v \<notin> {''Mobile'', ''Internet'', ''TV''}"
  shows "new_usage e v d s = (None, s)"
  using assms by (auto simp: new_usage_def)

lemma usage_months_known:
  assumes "s_service_type v \<in> {''Mobile'', ''Internet'', ''TV''}"
  shows "\<exists>var' rows s'. usage_months e v ks var acc s = Inr (var', acc @ rows, s') \<and>
           length rows = length ks \<and>
           (\<forall>u\<in>set rows. u_service_id u = s_service_id v \<and> u_customer_id u = s_customer_id v) \<and>
           (\<forall>var2. usage_months e v ks var2 acc s =
                     (if ks = [] then Inr (var2, acc, s) else Inr (var', acc @ rows, s')))"
proof (induction ks arbitrary: var acc s)
  case Nil
  show ?case by simp
next
  case (Cons k ks)
  define s1 where "s1 = snd (now e s)"
  define d where "d = plus_days (fst (now e s)) (- (30 * int k))"
  obtain u where u: "fst (new_usage e v d s1) = Some u" "u_service_id u = s_service_id v"
      "u_customer_id u = s_customer_id v"
    using new_usage_known [OF assms] by blast
  define s2 where "s2 = snd (new_usage e v d s1)"
  have step: "usage_months e v (k # ks) var2 acc s = usage_months e v ks (Some u) (acc @ [u]) s2"
    for var2
    using u(1) by (simp add: split_def Let_def s1_def d_def s2_def)
  from Cons.IH [of "Some u" "acc @ [u]" s2] obtain var' rows s' where
    r: "usage_months e v ks (Some u) (acc @ [u]) s2 = Inr (var', (acc @ [u]) @ rows, s')"
      "length rows = length ks"
      "\<forall>u\<in>set rows. u_service_id u = s_service_id v \<and> u_customer_id u = s_customer_id v"
    by blast
  show ?case
    using step r u(2,3)
    by (intro exI [of _ var'] exI [of _ "u # rows"] exI [of _ s']) simp
qed

lemma usage_loop_known:
  assumes "\<forall>v\<in>set svcs. s_service_type v \<in> {''Mobile'', ''Internet'', ''TV''}"
  shows "\<exists>rows s'. (\<forall>var. usage_loop e svcs var acc s = Inr (acc @ rows, s')) \<and>
           (\<forall>x. length (filter (\<lambda>u. u_service_id u = x) rows) =
                 12 * length (filter (\<lambda>v. s_service_id v = x \<and> s_service_status v = ''Active'') svcs)) \<and>
           length rows = 12 * length (filter (\<lambda>v. s_service_status v = ''Active'') svcs) \<and>
           (\<forall>u\<in>set rows. \<exists>v\<in>set svcs. s_service_status v = ''Active'' \<and>
               u_service_id u = s_service_id v \<and> u_customer_id u = s_customer_id v)"
  using assms
proof (induction svcs arbitrary: acc s)
  case Nil
  show ?case by simp
next
  case (Cons v svcs)
  have known: "s_service_type v \<in> {''Mobile'', ''Internet'', ''TV''}" using Cons.prems by simp
  have rest: "\<forall>v\<in>set svcs. s_service_type v \<in> {''Mobile'', ''Internet'', ''TV''}"
    using Cons.prems by simp
  show ?case
  proof (cases "s_service_status v = ''Active''")
    case False
    from Cons.IH [OF rest, of acc s] obtain rows s' where
      r: "\<forall>var. usage_loop e svcs var acc s = Inr (acc @ rows, s')"
        "\<forall>x. length (filter (\<lambda>u. u_service_id u = x) rows) =
              12 * length (filter (\<lambda>v. s_service_id v = x \<and> s_service_status v = ''Active'') svcs)"
        "length rows = 12 * length (filter (\<lambda>v. s_service_status v = ''Active'') svcs)"
        "\<forall>u\<in>set rows. \<exists>v\<in>set svcs. s_service_status v = ''Active'' \<and>
               u_service_id u = s_service_id v \<and> u_customer_id u = s_customer_id v"
      by blast
    show ?thesis
      using False r by (intro exI [of _ rows] exI [of _ s']) auto
  next
    case True
    obtain var1 r1 s1 where
      m: "\<forall>var2. usage_months e v [0..<12] var2 acc s = Inr (var1, acc @ r1, s1)"
        "length r1 = 12"
        "\<forall>u\<in>set r1. u_service_id u = s_service_id v \<and> u_customer_id u = s_customer_id v"
      using usage_months_known [OF known, of e "[0..<12]" None acc s] by auto
    from Cons.IH [OF rest, of "acc @ r1" s1] obtain r2 s' where
      r: "\<forall>var. usage_loop e svcs var (acc @ r1) s1 = Inr ((acc @ r1) @ r2, s')"
        "\<forall>x. length (filter (\<lambda>u. u_service_id u = x) r2) =
              12 * length (filter (\<lambda>v. s_service_id v = x \<and> s_service_status v = ''Active'') svcs)"
        "length r2 = 12 * length (filter (\<lambda>v. s_service_status v = ''Active'') svcs)"
        "\<forall>u\<in>set r2. \<exists>v\<in>set svcs. s_service_status v = ''Active'' \<and>
               u_service_id u = s_service_id v \<and> u_customer_id u = s_customer_id v"
      by blast
    have f1: "length (filter (\<lambda>u. u_service_id u = x) r1) = (if s_service_id v = x then 12 else 0)"
      for x
    proof (cases "s_service_id v = x")
      case True
      then have "filter (\<lambda>u. u_service_id u = x) r1 = r1" using m(3) by (auto simp: filter_id_conv)
      then show ?thesis using True m(2) by simp
    next
      case False
      then have "filter (\<lambda>u. u_service_id u = x) r1 = []" using m(3) by (auto simp: filter_empty_conv)
      then show ?thesis using False by simp
    qed
    show ?thesis
    proof (intro exI [of _ "r1 @ r2"] exI [of _ s'] conjI)
      show "\<forall>var. usage_loop e (v # svcs) var acc s = Inr (acc @ r1 @ r2, s')"
        using True m(1) r(1) by simp
      show "\<forall>x. length (filter (\<lambda>u. u_service_id u = x) (r1 @ r2)) =
          12 * length (filter (\<lambda>v. s_service_id v = x \<and> s_service_status v = ''Active'') (v # svcs))"
        using True f1 r(2) by simp
      show "length (r1 @ r2) = 12 * length (filter (\<lambda>v. s_service_status v = ''Active'') (v # svcs))"
        using True m(2) r(3) by simp
      show "\<forall>u\<in>set (r1 @ r2). \<exists>v\<in>set (v # svcs). s_service_status v = ''Active'' \<and>
               u_service_id u = s_service_id v \<and> u_customer_id u = s_customer_id v"
        using True m(3) r(4) by auto
    qed
  qed
qed

lemma billing_months_count:
  "length (filter (\<lambda>b. b_service_id b = x) (fst (billing_months e v ks [] s))) =
     (if s_service_id v = x then length ks else 0)"
proof (induction ks arbitrary: s)
  case Nil
  show ?case by simp
next
  case (Cons k ks)
  have id: "b_service_id (fst (new_billing e v k s)) = s_service_id v"
    by (simp add: new_billing_def split_def Let_def)
  show ?case
    using Cons.IH [of "snd (new_billing e v k s)"] id
      billing_months_acc [of e v ks "[fst (new_billing e v k s)]" "snd (new_billing e v k s)"]
    by (simp add: split_def Let_def)
qed

lemma billing_loop_count:
  "length (filter (\<lambda>b. b_service_id b = x) (fst (billing_loop e svcs [] s))) =
     12 * length (filter (\<lambda>v. s_service_id v = x) svcs)"
proof (induction svcs arbitrary: s)
  case Nil
  show ?case by simp
next
  case (Cons v svcs)
  show ?case
    using Cons.IH [of "snd (billing_months e v [0..<12] [] s)"]
      billing_months_count [of x e v "[0..<12]" s]
      billing_loop_acc [of e svcs "fst (billing_months e v [0..<12] [] s)"
        "snd (billing_months e v [0..<12] [] s)"]
    by (simp add: split_def Let_def)
qed

lemma billing_loop_length: "length (fst (billing_loop e svcs [] s)) = 12 * length svcs"
proof (induction svcs arbitrary: s)
  case Nil
  show ?case by simp
next
  case (Cons v svcs)
  have "length (fst (billing_months e v ks [] s1)) = length ks" for ks s1
  proof (induction ks arbitrary: s1)
    case Nil
    show ?case by simp
  next
    case (Cons k ks)
    show ?case
      using Cons.IH [of "snd (new_billing e v k s1)"]
        billing_months_acc [of e v ks "[fst (new_billing e v k s1)]" "snd (new_billing e v k s1)"]
      by (simp add: split_def Let_def)
  qed
  then show ?case
    using Cons.IH [of "snd (billing_months e v [0..<12] [] s)"]
      billing_loop_acc [of e svcs "fst (billing_months e v [0..<12] [] s)"
        "snd (billing_months e v [0..<12] [] s)"]
    by (simp add: split_def Let_def)
qed

lemma distinct_count_one:
  assumes "distinct (map f xs)" "v \<in> set xs"
  shows "filter (\<lambda>w. f w = f v) xs = [v]"
  using assms
proof (induction xs)
  case Nil
  then show ?case by simp
next
  case (Cons a xs)
  show ?case
  proof (cases "a = v")
    case True
    then have "\<forall>w\<in>set xs. f w \<noteq> f v" using Cons.prems(1) by (metis distinct.simps(2) image_eqI list.simps(9) set_map)
    then have "filter (\<lambda>w. f w = f v) xs = []" by (auto simp: filter_empty_conv)
    then show ?thesis using True by simp
  next
    case False
    then have "v \<in> set xs" using Cons.prems(2) by simp
    moreover have "f a \<noteq> f v" using Cons.prems(1) \<open>v \<in> set xs\<close> by auto
    ultimately show ?thesis using Cons.IH Cons.prems(1) by simp
  qed
qed

lemma new_service_status:
  assumes "new_service e c p n s = Inr (v, s')"
  shows "\<exists>s2. s_service_status v = fst (choices [''Active'', ''Suspended'', ''Cancelled''] [85, 8, 7] e s2)"
  using assms
  by (auto simp: new_service_def split_def Let_def split: sum.splits prod.splits if_splits)

lemma add_services_status:
  assumes "add_services e c ps acc s = Inr (res, s')" and "v \<in> set res"
  shows "v \<in> set acc \<or>
    (\<exists>s2. s_service_status v = fst (choices [''Active'', ''Suspended'', ''Cancelled''] [85, 8, 7] e s2))"
  using assms
proof (induction ps arbitrary: acc s)
  case Nil
  then show ?case by simp
next
  case (Cons p ps)
  from Cons.prems(1) obtain w s1 where
    w: "new_service e c p (length acc) s = Inr (w, s1)" and
    rest: "add_services e c ps (acc @ [w]) s1 = Inr (res, s')"
    by (auto split: sum.splits)
  from Cons.IH [OF rest Cons.prems(2)] show ?case
    using new_service_status [OF w] by auto
qed

lemma services_loop_status:
  assumes "services_loop e ps cs acc s = Inr (res, s')" and "v \<in> set res"
  shows "v \<in> set acc \<or>
    (\<exists>s2. s_service_status v = fst (choices [''Active'', ''Suspended'', ''Cancelled''] [85, 8, 7] e s2))"
  using assms
proof (induction cs arbitrary: acc s)
  case Nil
  then show ?case by simp
next
  case (Cons c cs)
  from Cons.prems(1) obtain mid s1 where
    mid: "services_for_customer e ps c acc s = Inr (mid, s1)" and
    rest: "services_loop e ps cs mid s1 = Inr (res, s')"
    by (auto split: sum.splits)
  obtain sel s0 where "selected_plans e ps c s = Inr (sel, s0)"
    using selected_plans_ok by blast
  with mid have add: "add_services e c sel acc s0 = Inr (mid, s1)"
    by (simp add: services_for_customer_def)
  from Cons.IH [OF rest Cons.prems(2)] show ?case
    using add_services_status [OF add] by blast
qed

lemma services_const_env_active:
  assumes "generate_customer_services (const_env 0) cs ps s = Inr (svcs, s')" and "v \<in> set svcs"
  shows "s_service_status v = ''Active''"
  using services_loop_status [of "const_env 0" ps cs "[]" s svcs s' v] assms
  by (auto simp: generate_customer_services_def choices_const_env)

lemma usage_months_unbound:
  assumes "s_service_type v \<notin> {''Mobile'', ''Internet'', ''TV''}"
  shows "usage_months e v (k # ks) None acc s = Inl (UnboundLocalError ''usage'')"
  using new_usage_unknown [OF assms] by (simp add: split_def Let_def)


lemma new_usage_cols:
  assumes "s_service_type v \<in> {''Mobile'', ''Internet'', ''TV''}"
  shows "\<exists>u. fst (new_usage e v (plus_days (fst (now e s)) (- (30 * int k))) s1) = Some u \<and>
           u_service_id u = s_service_id v \<and> u_usage_month u = usage_month_of e k"
proof -
  obtain u where u: "fst (new_usage e v (plus_days (fst (now e s)) (- (30 * int k))) s1) = Some u"
      "u_service_id u = s_service_id v"
      "u_usage_month u = strftime_Ym (plus_days (fst (now e s)) (- (30 * int k)))"
    using new_usage_known [OF assms] by blast
  have "strftime_Ym (plus_days (fst (now e s)) (- (30 * int k))) = usage_month_of e k"
    by (simp add: strftime_Ym_def usage_month_of_def plus_days_def now_def)
  then show ?thesis using u by simp
qed

lemma usage_months_cols:
  assumes "s_service_type v \<in> {''Mobile'', ''Internet'', ''TV''}"
    and "usage_months e v ks var acc s = Inr (var', res, s')"
  shows "map (\<lambda>u. (u_service_id u, u_usage_month u)) res =
         map (\<lambda>u. (u_service_id u, u_usage_month u)) acc @
         map (\<lambda>k. (s_service_id v, usage_month_of e k)) ks"
  using assms(2)
proof (induction ks arbitrary: var acc s)
  case Nil
  then show ?case by simp
next
  case (Cons k ks)
  obtain u where u: "fst (new_usage e v (plus_days (fst (now e s)) (- (30 * int k))) (snd (now e s))) = Some u"
      "u_service_id u = s_service_id v" "u_usage_month u = usage_month_of e k"
    using new_usage_cols [OF assms(1)] by blast
  define s2 where "s2 = snd (new_usage e v (plus_days (fst (now e s)) (- (30 * int k))) (snd (now e s)))"
  have step: "usage_months e v (k # ks) var acc s = usage_months e v ks (Some u) (acc @ [u]) s2"
    using u(1) by (simp add: split_def Let_def s2_def)
  from Cons.prems step have "usage_months e v ks (Some u) (acc @ [u]) s2 = Inr (var', res, s')"
    by simp
  from Cons.IH [OF this] show ?case using u(2,3) by simp
qed

lemma usage_loop_cols:
  assumes "\<forall>v\<in>set svcs. s_service_type v \<in> {''Mobile'', ''Internet'', ''TV''}"
    and "usage_loop e svcs var acc s = Inr (res, s')"
  shows "map (\<lambda>u. (u_service_id u, u_usage_month u)) res =
         map (\<lambda>u. (u_service_id u, u_usage_month u)) acc @
         concat (map (\<lambda>w. map (\<lambda>k. (s_service_id w, usage_month_of e k)) [0..<12])
                     (filter (\<lambda>w. s_service_status w = ''Active'') svcs))"
  using assms
proof (induction svcs arbitrary: var acc s)
  case Nil
  then show ?case by simp
next
  case (Cons v svcs)
  have known: "s_service_type v \<in> {''Mobile'', ''Internet'', ''TV''}" using Cons.prems(1) by simp
  have rest: "\<forall>v\<in>set svcs. s_service_type v \<in> {''Mobile'', ''Internet'', ''TV''}"
    using Cons.prems(1) by simp
  show ?case
  proof (cases "s_service_status v = ''Active''")
    case False
    then have "usage_loop e svcs var acc s = Inr (res, s')" using Cons.prems(2) by simp
    from Cons.IH [OF rest this] show ?thesis using False by simp
  next
    case True
    from Cons.prems(2) True obtain var1 mid s1 where
      m: "usage_months e v [0..<12] var acc s = Inr (var1, mid, s1)" and
      r: "usage_loop e svcs var1 mid s1 = Inr (res, s')"
      by (auto split: sum.splits)
    from usage_months_cols [OF known m] Cons.IH [OF rest r] show ?thesis using True by simp
  qed
qed

lemma concat_distinct_block:
  assumes "distinct (map f xs)" "v \<in> set xs"
  shows "concat (map (\<lambda>w. filter (\<lambda>p. fst p = f v) (map (\<lambda>k. (f w, g k)) ks)) xs) =
         map (\<lambda>k. (f v, g k)) ks"
  using assms
proof (induction xs)
  case Nil
  then show ?case by simp
next
  case (Cons a xs)
  have blk: "filter (\<lambda>p. fst p = f v) (map (\<lambda>k. (f w, g k)) ks) =
      (if f w = f v then map (\<lambda>k. (f w, g k)) ks else [])" for w
    by (induction ks) auto
  have none: "concat (map (\<lambda>w. filter (\<lambda>p. fst p = f v) (map (\<lambda>k. (f w, g k)) ks)) ys) = []"
    if "\<forall>w\<in>set ys. f w \<noteq> f v" for ys
    using that blk by (induction ys) auto
  show ?case
  proof (cases "f a = f v")
    case True
    then have "\<forall>w\<in>set xs. f w \<noteq> f v"
      using Cons.prems(1) by (metis distinct.simps(2) image_eqI list.simps(9) set_map)
    then show ?thesis using True none [of xs] blk [of a] by simp
  next
    case False
    then have "v \<in> set xs" using Cons.prems(2) by auto
    then show ?thesis using False Cons.IH Cons.prems(1) blk [of a] by simp
  qed
qed

lemma concat_absent_block:
  assumes "\<forall>w\<in>set xs. f w \<noteq> x"
  shows "concat (map (\<lambda>w. filter (\<lambda>p. fst p = x) (map (\<lambda>k. (f w, g k)) ks)) xs) = []"
proof -
  have blk: "filter (\<lambda>p. fst p = x) (map (\<lambda>k. (f w, g k)) ks) =
      (if f w = x then map (\<lambda>k. (f w, g k)) ks else [])" for w
    by (induction ks) auto
  show ?thesis using assms blk by (induction xs) auto
qed

lemma usage_months_of_service:
  assumes known: "\<forall>v\<in>set svcs. s_service_type v \<in> {''Mobile'', ''Internet'', ''TV''}"
    and dist: "distinct (map s_service_id svcs)"
    and v: "v \<in> set svcs"
    and gen: "generate_usage_data e svcs s = Inr (rows, s')"
  shows "map u_usage_month (filter (\<lambda>u. u_service_id u = s_service_id v) rows) =
         (if s_service_status v = ''Active'' then map (usage_month_of e) [0..<12] else [])"
proof -
  let ?col = "\<lambda>u. (u_service_id u, u_usage_month u)"
  let ?act = "filter (\<lambda>w. s_service_status w = ''Active'') svcs"
  have cols: "map ?col rows =
      concat (map (\<lambda>w. map (\<lambda>k. (s_service_id w, usage_month_of e k)) [0..<12]) ?act)"
    using usage_loop_cols [OF known, of e None "[]" s rows s'] gen
    by (simp add: generate_usage_data_def)
  have "map u_usage_month (filter (\<lambda>u. u_service_id u = s_service_id v) rows) =
      map snd (filter (\<lambda>p. fst p = s_service_id v) (map ?col rows))"
    by (simp add: filter_map comp_def)
  also have "\<dots> = map snd (concat (map (\<lambda>w. filter (\<lambda>p. fst p = s_service_id v)
      (map (\<lambda>k. (s_service_id w, usage_month_of e k)) [0..<12])) ?act))"
    by (simp add: cols filter_concat comp_def)
  also have "\<dots> = (if s_service_status v = ''Active'' then map (usage_month_of e) [0..<12] else [])"
  proof (cases "s_service_status v = ''Active''")
    case True
    have d: "distinct (map s_service_id ?act)" using dist by (simp add: distinct_map_filter)
    have m: "v \<in> set ?act" using v True by simp
    show ?thesis
      using concat_distinct_block [OF d m, of "usage_month_of e" "[0..<12]"] True
      by (simp add: comp_def)
  next
    case False
    have "\<forall>w\<in>set ?act. s_service_id w \<noteq> s_service_id v"
    proof
      fix w assume w: "w \<in> set ?act"
      then have "w \<noteq> v" using False by auto
      moreover have "w \<in> set svcs" using w by simp
      ultimately show "s_service_id w \<noteq> s_service_id v"
        using dist v by (meson distinct_map inj_onD)
    qed
    then show ?thesis
      using concat_absent_block [of ?act s_service_id "s_service_id v" "usage_month_of e" "[0..<12]"] False
      by simp
  qed
  finally show ?thesis .
qed

lemma billing_months_cols:
  "map (\<lambda>b. (b_service_id b, dt_day (b_bill_date b))) (fst (billing_months e v ks [] s)) =
     map (\<lambda>k. (s_service_id v, today e - 30 * int k)) ks"
proof (induction ks arbitrary: s)
  case Nil
  show ?case by simp
next
  case (Cons k ks)
  have row: "b_service_id (fst (new_billing e v k s)) = s_service_id v \<and>
      dt_day (b_bill_date (fst (new_billing e v k s))) = today e - 30 * int k"
    by (simp add: new_billing_def split_def Let_def now_def plus_days_def)
  show ?case
    using Cons.IH [of "snd (new_billing e v k s)"] row
      billing_months_acc [of e v ks "[fst (new_billing e v k s)]" "snd (new_billing e v k s)"]
    by (simp add: split_def Let_def)
qed

lemma billing_loop_cols:
  "map (\<lambda>b. (b_service_id b, dt_day (b_bill_date b))) (fst (billing_loop e svcs [] s)) =
     concat (map (\<lambda>w. map (\<lambda>k. (s_service_id w, today e - 30 * int k)) [0..<12]) svcs)"
proof (induction svcs arbitrary: s)
  case Nil
  show ?case by simp
next
  case (Cons v svcs)
  show ?case
    using Cons.IH [of "snd (billing_months e v [0..<12] [] s)"]
      billing_months_cols [of e v "[0..<12]" s]
      billing_loop_acc [of e svcs "fst (billing_months e v [0..<12] [] s)"
        "snd (billing_months e v [0..<12] [] s)"]
    by (simp add: split_def Let_def)
qed

lemma bill_days_of_service:
  assumes dist: "distinct (map s_service_id svcs)" and v: "v \<in> set svcs"
  shows "map (\<lambda>b. dt_day (b_bill_date b))
           (filter (\<lambda>b. b_service_id b = s_service_id v) (fst (generate_billing_data e svcs s))) =
         map (\<lambda>k. today e - 30 * int k) [0..<12]"
proof -
  let ?col = "\<lambda>b. (b_service_id b, dt_day (b_bill_date b))"
  let ?rows = "fst (generate_billing_data e svcs s)"
  have cols: "map ?col ?rows =
      concat (map (\<lambda>w. map (\<lambda>k. (s_service_id w, today e - 30 * int k)) [0..<12]) svcs)"
    using billing_loop_cols [of e svcs s] by (simp add: generate_billing_data_def)
  have "map (\<lambda>b. dt_day (b_bill_date b)) (filter (\<lambda>b. b_service_id b = s_service_id v) ?rows) =
      map snd (filter (\<lambda>p. fst p = s_service_id v) (map ?col ?rows))"
    by (simp add: filter_map comp_def)
  also have "\<dots> = map snd (concat (map (\<lambda>w. filter (\<lambda>p. fst p = s_service_id v)
      (map (\<lambda>k. (s_service_id w, today e - 30 * int k)) [0..<12])) svcs))"
    by (simp add: cols filter_concat comp_def)
  also have "\<dots> = map (\<lambda>k. today e - 30 * int k) [0..<12]"
    using concat_distinct_block [OF dist v, of "\<lambda>k. today e - 30 * int k" "[0..<12]"]
    by (simp add: comp_def)
  finally show ?thesis .
qed

text \<open>
  The row counts. For the subscriptions that \<^verbatim>\<open>generate_customer_services\<close> produces
  from the plan catalog, \<^verbatim>\<open>generate_usage_data\<close> returns a table with exactly 12 rows for
  each Active subscription, one for each month offset 0 to 11 (labelled with the month of
  the day 30 times the offset days before today), and none for any other subscription;
  \<^verbatim>\<open>generate_billing_data\<close> returns exactly 12 rows for every subscription, whatever its
  status, billed 0, 30, ..., 330 days before today. Rows are attributed to a subscription
  by its service id, which is unique in the table.
\<close>

theorem twelve_rows_per_subscription:
  assumes "generate_customer_services e cs generate_service_plans s0 = Inr (svcs, s1)"
    and "v \<in> set svcs"
  shows "(\<exists>rows s'. generate_usage_data e2 svcs s2 = Inr (rows, s') \<and>
            length (filter (\<lambda>u. u_service_id u = s_service_id v) rows) =
              (if s_service_status v = ''Active'' then 12 else 0) \<and>
            map u_usage_month (filter (\<lambda>u. u_service_id u = s_service_id v) rows) =
              (if s_service_status v = ''Active'' then map (usage_month_of e2) [0..<12] else [])) \<and>
         length (filter (\<lambda>b. b_service_id b = s_service_id v)
                   (fst (generate_billing_data e3 svcs s3))) = 12 \<and>
         map (\<lambda>b. dt_day (b_bill_date b))
             (filter (\<lambda>b. b_service_id b = s_service_id v) (fst (generate_billing_data e3 svcs s3))) =
           map (\<lambda>k. today e3 - 30 * int k) [0..<12]"
proof -
  have known: "\<forall>v\<in>set svcs. s_service_type v \<in> {''Mobile'', ''Internet'', ''TV''}"
    using generate_customer_services_types [OF assms(1)] by blast
  have dist: "distinct (map s_service_id svcs)"
    using generate_customer_services_props [OF assms(1)] by blast
  obtain rows s' where u: "generate_usage_data e2 svcs s2 = Inr (rows, s')"
    using usage_loop_known [OF known, of e2 "[]" s2] by (auto simp: generate_usage_data_def)
  have um: "map u_usage_month (filter (\<lambda>u. u_service_id u = s_service_id v) rows) =
      (if s_service_status v = ''Active'' then map (usage_month_of e2) [0..<12] else [])"
    by (rule usage_months_of_service [OF known dist assms(2) u])
  have "length (map u_usage_month (filter (\<lambda>u. u_service_id u = s_service_id v) rows)) =
      (if s_service_status v = ''Active'' then 12 else 0)"
    unfolding um by simp
  then have uc: "length (filter (\<lambda>u. u_service_id u = s_service_id v) rows) =
      (if s_service_status v = ''Active'' then 12 else 0)"
    by simp
  have bd: "map (\<lambda>b. dt_day (b_bill_date b))
      (filter (\<lambda>b. b_service_id b = s_service_id v) (fst (generate_billing_data e3 svcs s3))) =
      map (\<lambda>k. today e3 - 30 * int k) [0..<12]"
    by (rule bill_days_of_service [OF dist assms(2)])
  have "length (map (\<lambda>b. dt_day (b_bill_date b))
      (filter (\<lambda>b. b_service_id b = s_service_id v) (fst (generate_billing_data e3 svcs s3)))) = 12"
    unfolding bd by simp
  then have bc: "length (filter (\<lambda>b. b_service_id b = s_service_id v)
      (fst (generate_billing_data e3 svcs s3))) = 12"
    by simp
  show ?thesis using u uc um bc bd by blast
qed

lemma example_services:
  "\<exists>svcs s1 v. generate_customer_services (const_env 0) [example_customer] generate_service_plans pos0
       = Inr (svcs, s1) \<and> v \<in> set svcs \<and> s_service_status v = ''Active''"
proof -
  have d: "\<forall>c\<in>set [example_customer]. c_account_creation_date c \<le> today (const_env 0)"
    by (simp add: example_customer_def today_const_env)
  obtain svcs s1 where g: "generate_customer_services (const_env 0) [example_customer]
      generate_service_plans pos0 = Inr (svcs, s1)"
    using services_loop_ok [OF d, of generate_service_plans "[]" pos0]
    by (auto simp: generate_customer_services_def)
  have "1 \<le> length svcs"
    using services_loop_count [of "const_env 0" "[example_customer]" "[]" pos0 svcs s1] g
    by (simp add: generate_customer_services_def)
  then obtain v where v: "v \<in> set svcs" by (cases svcs) auto
  show ?thesis using g v services_const_env_active [OF g v] by blast
qed

theorem twelve_rows_per_subscription_witness:
  "\<exists>svcs s1 v rows s'.
     generate_customer_services (const_env 0) [example_customer] generate_service_plans pos0
       = Inr (svcs, s1) \<and>
     v \<in> set svcs \<and> s_service_status v = ''Active'' \<and>
     generate_usage_data (const_env 0) svcs s1 = Inr (rows, s') \<and>
     length (filter (\<lambda>u. u_service_id u = s_service_id v) rows) = 12 \<and>
     map u_usage_month (filter (\<lambda>u. u_service_id u = s_service_id v) rows) =
       map (usage_month_of (const_env 0)) [0..<12] \<and>
     length (filter (\<lambda>b. b_service_id b = s_service_id v)
               (fst (generate_billing_data (const_env 0) svcs s1))) = 12"
proof -
  obtain svcs s1 v where g: "generate_customer_services (const_env 0) [example_customer]
      generate_service_plans pos0 = Inr (svcs, s1)" "v \<in> set svcs" "s_service_status v = ''Active''"
    using example_services by blast
  from twelve_rows_per_subscription [OF g(1,2), of "const_env 0" s1 "const_env 0" s1] g(3)
  obtain rows s' where "generate_usage_data (const_env 0) svcs s1 = Inr (rows, s')"
      "length (filter (\<lambda>u. u_service_id u = s_service_id v) rows) = 12"
      "map u_usage_month (filter (\<lambda>u. u_service_id u = s_service_id v) rows) =
         map (usage_month_of (const_env 0)) [0..<12]"
      "length (filter (\<lambda>b. b_service_id b = s_service_id v)
               (fst (generate_billing_data (const_env 0) svcs s1))) = 12"
    by auto
  then show ?thesis using g by blast
qed

lemma upt_12: "[0..<12] = [0, 1, 2, 3, 4, 5, 6, 7, 8, 9, 10, 11 :: nat]"
  by code_simp

lemma digit_char_eval:
  "digit_char 0 = CHR ''0''" "digit_char 1 = CHR ''1''" "digit_char 2 = CHR ''2''"
  "digit_char 3 = CHR ''3''" "digit_char 4 = CHR ''4''" "digit_char 5 = CHR ''5''"
  "digit_char 6 = CHR ''6''" "digit_char 7 = CHR ''7''" "digit_char 8 = CHR ''8''"
  "digit_char 9 = CHR ''9''"
  by code_simp+

lemma zero_pad_years: "zero_pad 4 2024 = ''2024''" "zero_pad 4 2023 = ''2023''"
  by (simp_all add: zero_pad_def digits.simps [of 2024] digits.simps [of 2023]
      digits.simps [of 202] digits.simps [of 20] digits.simps [of 2] digit_char_eval)

lemma zero_pad_months:
  "zero_pad 2 1 = ''01''" "zero_pad 2 (Suc 0) = ''01''" "zero_pad 2 3 = ''03''"
  "zero_pad 2 5 = ''05''" "zero_pad 2 6 = ''06''"
  "zero_pad 2 7 = ''07''" "zero_pad 2 8 = ''08''" "zero_pad 2 9 = ''09''" "zero_pad 2 10 = ''10''"
  "zero_pad 2 11 = ''11''" "zero_pad 2 12 = ''12''"
  by code_simp+

lemma year_month_days:
  "year_month 19813 = (2024, 3)" "year_month 19783 = (2024, 3)" "year_month 19753 = (2024, 1)"
  "year_month 19723 = (2024, 1)" "year_month 19693 = (2023, 12)" "year_month 19663 = (2023, 11)"
  "year_month 19633 = (2023, 10)" "year_month 19603 = (2023, 9)" "year_month 19573 = (2023, 8)"
  "year_month 19543 = (2023, 7)" "year_month 19513 = (2023, 6)" "year_month 19483 = (2023, 5)"
  by code_simp+

lemma months_eval:
  "map (usage_month_of march_31_env) [0..<12] =
     [''2024-03'', ''2024-03'', ''2024-01'', ''2024-01'', ''2023-12'', ''2023-11'',
      ''2023-10'', ''2023-09'', ''2023-08'', ''2023-07'', ''2023-06'', ''2023-05'']"
  unfolding upt_12
  by (simp add: usage_month_of_def march_31_env_def strftime_Ym_def year_month_days
      zero_pad_years zero_pad_months)

text \<open>
  C4. The claim is that an Active subscription gets exactly 12 usage rows, one per trailing
  month. The code comments "Generate 12 months of usage data" and steps back
  \<^verbatim>\<open>timedelta(days=30 * month_offset)\<close>, so the 12 rows are 30 days apart, not one month
  apart. For a run on 2024-03-31 the 12 usage rows of an Active subscription carry
  \<open>2024-03\<close> twice and \<open>2024-01\<close> twice, and there is no row for February 2024 or for April
  2023. (The counts of the claim hold: \<open>twelve_rows_per_subscription\<close>.)
\<close>

theorem usage_months_repeat:
  "map_sum id (\<lambda>r. map (\<lambda>u. (u_service_id u, u_usage_month u)) (fst r))
     (generate_usage_data march_31_env [example_service] pos0) =
   Inr (map (Pair ''SVC_00000001'')
     [''2024-03'', ''2024-03'', ''2024-01'', ''2024-01'', ''2023-12'', ''2023-11'',
      ''2023-10'', ''2023-09'', ''2023-08'', ''2023-07'', ''2023-06'', ''2023-05''])"
proof -
  have known: "\<forall>v\<in>set [example_service]. s_service_type v \<in> {''Mobile'', ''Internet'', ''TV''}"
    by (simp add: example_service_def)
  obtain rows s' where g: "generate_usage_data march_31_env [example_service] pos0 = Inr (rows, s')"
    using usage_loop_known [OF known, of march_31_env "[]" pos0]
    by (auto simp: generate_usage_data_def)
  have "map (\<lambda>u. (u_service_id u, u_usage_month u)) rows =
      map (\<lambda>k. (s_service_id example_service, usage_month_of march_31_env k)) [0..<12]"
    using usage_loop_cols [OF known, of march_31_env None "[]" pos0 rows s'] g
    by (simp add: generate_usage_data_def example_service_def)
  also have "\<dots> = map (Pair ''SVC_00000001'') (map (usage_month_of march_31_env) [0..<12])"
    by (simp add: example_service_def comp_def)
  finally show ?thesis using g by (simp add: months_eval)
qed



section \<open>Tickets and surveys\<close>

lemma new_ticket_ok:
  assumes "c_account_creation_date c \<le> today e"
  shows "\<exists>t s'. new_ticket e c n s = Inr (t, s')"
proof -
  obtain d s1 where d: "date_between (c_account_creation_date c) (today e) e s = (Inr d, s1)"
    using date_between_ok [OF assms] by blast
  define issue where "issue = fst (choice [''Billing'', ''Technical Support'', ''Service Change'',
      ''Complaint'', ''Sales Inquiry''] e s1)"
  have "issue \<in> {''Billing'', ''Technical Support'', ''Service Change'', ''Complaint'', ''Sales Inquiry''}"
    using choice_mem [of "[''Billing'', ''Technical Support'', ''Service Change'',
      ''Complaint'', ''Sales Inquiry'']" e s1]
    by (simp add: issue_def)
  then have "\<exists>h. dict_get [(''Billing'', h1), (''Technical Support'', h2), (''Service Change'', h3),
      (''Complaint'', h4), (''Sales Inquiry'', h5)] issue = Inr h" for h1 h2 h3 h4 h5 :: rat
    by (auto simp: dict_get_def)
  then show ?thesis
    using d by (simp add: new_ticket_def split_def Let_def issue_def split: sum.splits) (metis sum.exhaust sum.distinct(1))
qed

lemma add_tickets_ok:
  assumes "c_account_creation_date c \<le> today e"
  shows "\<exists>res s'. add_tickets e c n acc s = Inr (res, s') \<and> length res = length acc + n"
proof (induction n arbitrary: acc s)
  case 0
  show ?case by simp
next
  case (Suc n)
  obtain t s1 where "new_ticket e c (length acc) s = Inr (t, s1)"
    using new_ticket_ok [OF assms] by blast
  then show ?case using Suc.IH [of "acc @ [t]" s1] by simp
qed

lemma num_tickets_pos: "1 \<le> fst (choices [1, 2, 3, 4, 5::nat] ws e s)"
  using choices_mem [of "[1, 2, 3, 4, 5::nat]" ws e s] by auto

lemma tickets_loop_ok:
  assumes "\<forall>c\<in>set cs. c_account_creation_date c \<le> today e"
  shows "\<exists>res s'. tickets_loop e cs acc s = Inr (res, s') \<and> length acc + length cs \<le> length res"
  using assms
proof (induction cs arbitrary: acc s)
  case Nil
  show ?case by simp
next
  case (Cons c cs)
  define n where "n = fst (choices [1, 2, 3, 4, 5::nat] [50, 30, 15, 4, 1] e s)"
  define s1 where "s1 = snd (choices [1, 2, 3, 4, 5::nat] [50, 30, 15, 4, 1] e s)"
  have n: "1 \<le> n" unfolding n_def by (rule num_tickets_pos)
  have "c_account_creation_date c \<le> today e" using Cons.prems by simp
  then obtain mid s2 where mid: "add_tickets e c n acc s1 = Inr (mid, s2)"
      "length mid = length acc + n"
    using add_tickets_ok by blast
  obtain res s' where res: "tickets_loop e cs mid s2 = Inr (res, s')"
      "length mid + length cs \<le> length res"
    using Cons.IH [of mid s2] Cons.prems by auto
  have step: "tickets_loop e (c # cs) acc s =
      (case add_tickets e c n acc s1 of Inl err \<Rightarrow> Inl err | Inr (r, s2) \<Rightarrow> tickets_loop e cs r s2)"
    by (simp add: split_def Let_def n_def s1_def)
  show ?case unfolding step using mid res n by simp
qed

lemma generate_support_tickets_ok:
  assumes "\<forall>c\<in>set cs. c_account_creation_date c \<le> today e"
  shows "\<exists>tk s'. generate_support_tickets e cs s = Inr (tk, s') \<and> (2 \<le> length cs \<longrightarrow> tk \<noteq> [])"
proof -
  obtain sel s1 where sel: "sample_frac (4 / 10) cs e s = Inr (sel, s1)" "set sel \<subseteq> set cs"
      "2 \<le> length cs \<and> (1 / 4 :: rat) < 4 / 10 \<longrightarrow> sel \<noteq> []"
    using sample_frac_ok [of "4 / 10" cs e s] by auto
  have step: "generate_support_tickets e cs s = tickets_loop e sel [] s1"
    using sel(1) by (simp add: generate_support_tickets_def)
  have sub: "\<forall>c\<in>set sel. c_account_creation_date c \<le> today e"
    using assms sel(2) by auto
  obtain tk s' where r: "tickets_loop e sel [] s1 = Inr (tk, s')" "length sel \<le> length tk"
    using tickets_loop_ok [OF sub, of "[]" s1] by auto
  have "sel \<noteq> []" if "2 \<le> length cs" using that sel(3) by simp
  then have "tk \<noteq> []" if "2 \<le> length cs" using that r(2) by auto
  then show ?thesis unfolding step using r(1) by blast
qed

lemma generate_support_tickets_single:
  assumes "length cs \<le> 1"
  shows "generate_support_tickets e cs s = Inr ([], s)"
  using sample_frac_single [OF assms, of "4 / 10" e s]
  by (simp add: generate_support_tickets_def)

lemma new_survey_ok:
  assumes "c_account_creation_date c \<le> today e"
  shows "\<exists>v s'. new_survey e c n s = Inr (v, s')"
proof -
  obtain d s1 where d: "date_between (c_account_creation_date c) (today e) e s = (Inr d, s1)"
    using date_between_ok [OF assms] by blast
  then show ?thesis by (simp add: new_survey_def split_def Let_def)
qed

lemma add_surveys_ok:
  assumes "c_account_creation_date c \<le> today e"
  shows "\<exists>res s'. add_surveys e c n acc s = Inr (res, s') \<and> length res = length acc + n"
proof (induction n arbitrary: acc s)
  case 0
  show ?case by simp
next
  case (Suc n)
  obtain v s1 where "new_survey e c (length acc) s = Inr (v, s1)"
    using new_survey_ok [OF assms] by blast
  then show ?case using Suc.IH [of "acc @ [v]" s1] by simp
qed

lemma num_surveys_pos: "1 \<le> fst (choices [1, 2, 3::nat] ws e s)"
  using choices_mem [of "[1, 2, 3::nat]" ws e s] by auto

lemma surveys_loop_ok:
  assumes "\<forall>c\<in>set cs. c_account_creation_date c \<le> today e"
  shows "\<exists>res s'. surveys_loop e cs acc s = Inr (res, s') \<and> length acc + length cs \<le> length res"
  using assms
proof (induction cs arbitrary: acc s)
  case Nil
  show ?case by simp
next
  case (Cons c cs)
  define n where "n = fst (choices [1, 2, 3::nat] [60, 30, 10] e s)"
  define s1 where "s1 = snd (choices [1, 2, 3::nat] [60, 30, 10] e s)"
  have n: "1 \<le> n" unfolding n_def by (rule num_surveys_pos)
  have "c_account_creation_date c \<le> today e" using Cons.prems by simp
  then obtain mid s2 where mid: "add_surveys e c n acc s1 = Inr (mid, s2)"
      "length mid = length acc + n"
    using add_surveys_ok by blast
  obtain res s' where res: "surveys_loop e cs mid s2 = Inr (res, s')"
      "length mid + length cs \<le> length res"
    using Cons.IH [of mid s2] Cons.prems by auto
  have step: "surveys_loop e (c # cs) acc s =
      (case add_surveys e c n acc s1 of Inl err \<Rightarrow> Inl err | Inr (r, s2) \<Rightarrow> surveys_loop e cs r s2)"
    by (simp add: split_def Let_def n_def s1_def)
  show ?case unfolding step using mid res n by simp
qed

lemma generate_nps_surveys_ok:
  assumes "\<forall>c\<in>set cs. c_account_creation_date c \<le> today e"
  shows "\<exists>nps s'. generate_nps_surveys e cs s = Inr (nps, s') \<and> (2 \<le> length cs \<longrightarrow> nps \<noteq> [])"
proof -
  obtain sel s1 where sel: "sample_frac (3 / 10) cs e s = Inr (sel, s1)" "set sel \<subseteq> set cs"
      "2 \<le> length cs \<and> (1 / 4 :: rat) < 3 / 10 \<longrightarrow> sel \<noteq> []"
    using sample_frac_ok [of "3 / 10" cs e s] by auto
  have step: "generate_nps_surveys e cs s = surveys_loop e sel [] s1"
    using sel(1) by (simp add: generate_nps_surveys_def)
  have sub: "\<forall>c\<in>set sel. c_account_creation_date c \<le> today e"
    using assms sel(2) by auto
  obtain nps s' where r: "surveys_loop e sel [] s1 = Inr (nps, s')" "length sel \<le> length nps"
    using surveys_loop_ok [OF sub, of "[]" s1] by auto
  have "sel \<noteq> []" if "2 \<le> length cs" using that sel(3) by simp
  then have "nps \<noteq> []" if "2 \<le> length cs" using that r(2) by auto
  then show ?thesis unfolding step using r(1) by blast
qed

lemma generate_nps_surveys_single:
  assumes "length cs \<le> 1"
  shows "generate_nps_surveys e cs s = Inr ([], s)"
  using sample_frac_single [OF assms, of "3 / 10" e s]
  by (simp add: generate_nps_surveys_def)

section \<open>The whole pipeline\<close>

lemma generate_billing_length:
  "length (fst (generate_billing_data e svcs s)) = 12 * length svcs"
  by (simp add: generate_billing_data_def billing_loop_length)

lemma generate_billing_hd:
  "dt_day (b_bill_date (hd (fst (generate_billing_data e (v # svcs) s)))) = today e"
proof -
  have "[0..<12] = 0 # [1..<12]" by (simp add: upt_conv_Cons)
  then have "fst (billing_months e v [0..<12] [] s) =
      fst (new_billing e v 0 s) # fst (billing_months e v [1..<12] [] (snd (new_billing e v 0 s)))"
    using billing_months_acc [of e v "[1..<12]" "[fst (new_billing e v 0 s)]"]
    by (simp add: split_def Let_def)
  then have "hd (fst (generate_billing_data e (v # svcs) s)) = fst (new_billing e v 0 s)"
    using billing_loop_acc [of e svcs "fst (billing_months e v [0..<12] [] s)"]
    by (simp add: generate_billing_data_def split_def Let_def)
  then show ?thesis by (simp add: new_billing_def split_def Let_def now_def plus_days_def)
qed

lemma generate_all_data_stages:
  "\<exists>cs svcs us s3 tk s5 nps s6.
    (\<forall>c\<in>set cs. c_account_creation_date c \<le> today e) \<and>
    length cs = nat n \<and>
    length cs \<le> length svcs \<and>
    generate_support_tickets e cs (snd (generate_billing_data e svcs s3)) = Inr (tk, s5) \<and>
    generate_nps_surveys e cs s5 = Inr (nps, s6) \<and>
    (2 \<le> length cs \<longrightarrow> tk \<noteq> [] \<and> nps \<noteq> []) \<and>
    generate_all_data e n s =
       (case calculate_customer_metrics e cs svcs (fst (generate_billing_data e svcs s3)) tk nps s6 of
          Inl err \<Rightarrow> Inl err
        | Inr (metrics_df, s7) \<Rightarrow>
            Inr (\<lparr>customers = cs, plans = generate_service_plans, services = svcs,
                  usage_rows = us, billing_rows = fst (generate_billing_data e svcs s3),
                  support_tickets = tk, nps_surveys = nps, customer_metrics = metrics_df\<rparr>, s7))"
proof -
  obtain cs s1 where cs: "generate_customer_demographics e n s = Inr (cs, s1)"
      "length cs = nat n" "\<forall>c\<in>set cs. c_account_creation_date c \<le> today e"
    using generate_customer_demographics_ok by blast
  obtain svcs s2 where svcs: "generate_customer_services e cs generate_service_plans s1 = Inr (svcs, s2)"
    using services_loop_ok [OF cs(3), of generate_service_plans "[]" s1]
    by (auto simp: generate_customer_services_def)
  have len: "length cs \<le> length svcs"
    using services_loop_count [of e cs "[]" s1 svcs s2] svcs
    by (simp add: generate_customer_services_def)
  have known: "\<forall>v\<in>set svcs. s_service_type v \<in> {''Mobile'', ''Internet'', ''TV''}"
    using generate_customer_services_types [OF svcs] by blast
  obtain us s3 where us: "generate_usage_data e svcs s2 = Inr (us, s3)"
    using usage_loop_known [OF known, of e "[]" s2] by (auto simp: generate_usage_data_def)
  define s4 where "s4 = snd (generate_billing_data e svcs s3)"
  obtain tk s5 where tk: "generate_support_tickets e cs s4 = Inr (tk, s5)"
      "2 \<le> length cs \<longrightarrow> tk \<noteq> []"
    using generate_support_tickets_ok [OF cs(3)] by blast
  obtain nps s6 where nps: "generate_nps_surveys e cs s5 = Inr (nps, s6)"
      "2 \<le> length cs \<longrightarrow> nps \<noteq> []"
    using generate_nps_surveys_ok [OF cs(3)] by blast
  have "generate_all_data e n s =
       (case calculate_customer_metrics e cs svcs (fst (generate_billing_data e svcs s3)) tk nps s6 of
          Inl err \<Rightarrow> Inl err
        | Inr (metrics_df, s7) \<Rightarrow>
            Inr (\<lparr>customers = cs, plans = generate_service_plans, services = svcs,
                  usage_rows = us, billing_rows = fst (generate_billing_data e svcs s3),
                  support_tickets = tk, nps_surveys = nps, customer_metrics = metrics_df\<rparr>, s7))"
    using cs(1) svcs us tk(1) nps(1)
    by (simp add: generate_all_data_def split_def Let_def s4_def split: sum.splits)
  then show ?thesis
    using cs(2,3) len tk nps unfolding s4_def by blast
qed

lemma generate_all_data_nonpos:
  assumes "n \<le> 0"
  shows "generate_all_data e n s =
     Inr (\<lparr>customers = [], plans = generate_service_plans, services = [], usage_rows = [],
           billing_rows = [], support_tickets = [], nps_surveys = [], customer_metrics = []\<rparr>, s)"
  using assms
  by (simp add: generate_all_data_def generate_customer_demographics_nonpos
      generate_customer_services_def generate_usage_data_def generate_billing_data_def
      generate_support_tickets_single generate_nps_surveys_single calculate_customer_metrics_def)

lemma generate_all_data_single:
  "generate_all_data e 1 s = Inl (KeyError ''customer_id'')"
proof -
  obtain cs svcs us s3 tk s5 nps s6 where
    st: "length cs = nat 1"
      "generate_support_tickets e cs (snd (generate_billing_data e svcs s3)) = Inr (tk, s5)"
      "generate_all_data e 1 s =
       (case calculate_customer_metrics e cs svcs (fst (generate_billing_data e svcs s3)) tk nps s6 of
          Inl err \<Rightarrow> Inl err
        | Inr (metrics_df, s7) \<Rightarrow>
            Inr (\<lparr>customers = cs, plans = generate_service_plans, services = svcs,
                  usage_rows = us, billing_rows = fst (generate_billing_data e svcs s3),
                  support_tickets = tk, nps_surveys = nps, customer_metrics = metrics_df\<rparr>, s7))"
    using generate_all_data_stages [of e 1 s] by blast
  have "tk = []"
    using st(1,2) generate_support_tickets_single [of cs e "snd (generate_billing_data e svcs s3)"]
    by simp
  moreover obtain c where "cs = [c]" using st(1) by (cases cs) auto
  ultimately have "calculate_customer_metrics e cs svcs (fst (generate_billing_data e svcs s3)) tk nps s6
      = Inl (KeyError ''customer_id'')"
    using metrics_loop_KeyError [of svcs "fst (generate_billing_data e svcs s3)" "[]" nps e c "[]" "[]" s6]
    by (simp add: calculate_customer_metrics_def)
  then show ?thesis using st(3) by simp
qed

lemma generate_all_data_ok:
  assumes "2 \<le> n"
  shows "\<exists>t s'. generate_all_data e n s = Inr (t, s') \<and> length (customers t) = nat n \<and>
           billing_rows t \<noteq> [] \<and> dt_day (b_bill_date (hd (billing_rows t))) = today e \<and>
           length (customer_metrics t) = nat n"
proof -
  obtain cs svcs us s3 tk s5 nps s6 where
    st: "length cs = nat n" "length cs \<le> length svcs"
      "2 \<le> length cs \<longrightarrow> tk \<noteq> [] \<and> nps \<noteq> []"
      "generate_all_data e n s =
       (case calculate_customer_metrics e cs svcs (fst (generate_billing_data e svcs s3)) tk nps s6 of
          Inl err \<Rightarrow> Inl err
        | Inr (metrics_df, s7) \<Rightarrow>
            Inr (\<lparr>customers = cs, plans = generate_service_plans, services = svcs,
                  usage_rows = us, billing_rows = fst (generate_billing_data e svcs s3),
                  support_tickets = tk, nps_surveys = nps, customer_metrics = metrics_df\<rparr>, s7))"
    using generate_all_data_stages [of e n s] by blast
  let ?bl = "fst (generate_billing_data e svcs s3)"
  have two: "2 \<le> length cs" using assms st(1) by simp
  then have ne: "svcs \<noteq> []" "tk \<noteq> []" "nps \<noteq> []" using st(2,3) by auto
  then obtain v rest where v: "svcs = v # rest" by (cases svcs) auto
  have bl: "?bl \<noteq> []" using generate_billing_length [of e svcs s3] ne(1) by auto
  have day: "dt_day (b_bill_date (hd ?bl)) = today e"
    using generate_billing_hd [of e v rest s3] v by simp
  obtain ms s7 where ms: "calculate_customer_metrics e cs svcs ?bl tk nps s6 = Inr (ms, s7)"
    using metrics_loop_ok [OF ne(1) bl ne(2,3), of e cs "[]" s6]
    by (auto simp: calculate_customer_metrics_def)
  have "length ms = length cs"
    using calculate_customer_metrics_rows [OF ms] by (simp add: list_all2_lengthD)
  then show ?thesis using st(1,4) ms bl day by simp
qed

lemma generate_billing_hd_micro:
  "dt_micro (b_bill_date (hd (fst (generate_billing_data e (v # svcs) s)))) = clock e (cp s)"
proof -
  have "[0..<12] = 0 # [1..<12]" by (simp add: upt_conv_Cons)
  then have "fst (billing_months e v [0..<12] [] s) =
      fst (new_billing e v 0 s) # fst (billing_months e v [1..<12] [] (snd (new_billing e v 0 s)))"
    using billing_months_acc [of e v "[1..<12]" "[fst (new_billing e v 0 s)]"]
    by (simp add: split_def Let_def)
  then have "hd (fst (generate_billing_data e (v # svcs) s)) = fst (new_billing e v 0 s)"
    using billing_loop_acc [of e svcs "fst (billing_months e v [0..<12] [] s)"]
    by (simp add: generate_billing_data_def split_def Let_def)
  then show ?thesis by (simp add: new_billing_def split_def Let_def now_def plus_days_def)
qed

lemma generate_all_data_first_bill:
  assumes "2 \<le> n"
  shows "\<exists>t s' i. generate_all_data e n s = Inr (t, s') \<and>
           dt_day (b_bill_date (hd (billing_rows t))) = today e \<and>
           dt_micro (b_bill_date (hd (billing_rows t))) = clock e i"
proof -
  obtain cs svcs us s3 tk s5 nps s6 where
    st: "length cs = nat n" "length cs \<le> length svcs"
      "2 \<le> length cs \<longrightarrow> tk \<noteq> [] \<and> nps \<noteq> []"
      "generate_all_data e n s =
       (case calculate_customer_metrics e cs svcs (fst (generate_billing_data e svcs s3)) tk nps s6 of
          Inl err \<Rightarrow> Inl err
        | Inr (metrics_df, s7) \<Rightarrow>
            Inr (\<lparr>customers = cs, plans = generate_service_plans, services = svcs,
                  usage_rows = us, billing_rows = fst (generate_billing_data e svcs s3),
                  support_tickets = tk, nps_surveys = nps, customer_metrics = metrics_df\<rparr>, s7))"
    using generate_all_data_stages [of e n s] by blast
  let ?bl = "fst (generate_billing_data e svcs s3)"
  have two: "2 \<le> length cs" using assms st(1) by simp
  then have ne: "svcs \<noteq> []" "tk \<noteq> []" "nps \<noteq> []" using st(2,3) by auto
  then obtain v rest where v: "svcs = v # rest" by (cases svcs) auto
  have bl: "?bl \<noteq> []" using generate_billing_length [of e svcs s3] ne(1) by auto
  have day: "dt_day (b_bill_date (hd ?bl)) = today e"
    using generate_billing_hd [of e v rest s3] v by simp
  have mic: "dt_micro (b_bill_date (hd ?bl)) = clock e (cp s3)"
    using generate_billing_hd_micro [of e v rest s3] v by simp
  obtain ms s7 where ms: "calculate_customer_metrics e cs svcs ?bl tk nps s6 = Inr (ms, s7)"
    using metrics_loop_ok [OF ne(1) bl ne(2,3), of e cs "[]" s6]
    by (auto simp: calculate_customer_metrics_def)
  show ?thesis using st(4) ms day mic by auto
qed

text \<open>
  C1. The claim is that a fixed seed and customer count fix the contents of all eight
  tables. The seed fixes the random tapes only: \<^verbatim>\<open>generate_billing_data\<close>,
  \<^verbatim>\<open>generate_usage_data\<close> and \<^verbatim>\<open>calculate_customer_metrics\<close> read \<^verbatim>\<open>datetime.now()\<close>.
  Two runs for 2 customers on the same tapes return different results when they run on
  different days, and also when they run on the same day and every clock reading differs
  by one microsecond: the first bill date differs.
\<close>

theorem tables_depend_on_clock:
  "generate_all_data (const_env 0) 2 pos0 \<noteq>
     generate_all_data ((const_env 0)\<lparr>today := 20001\<rparr>) 2 pos0 \<and>
   generate_all_data ((const_env 0)\<lparr>clock := \<lambda>i. 2 * i\<rparr>) 2 pos0 \<noteq>
     generate_all_data ((const_env 0)\<lparr>clock := \<lambda>i. 2 * i + 1\<rparr>) 2 pos0"
proof
  obtain t s' where a: "generate_all_data (const_env 0) 2 pos0 = Inr (t, s')"
      "dt_day (b_bill_date (hd (billing_rows t))) = today (const_env 0)"
    using generate_all_data_first_bill [of 2 "const_env 0" pos0] by auto
  obtain t2 s2 where b: "generate_all_data ((const_env 0)\<lparr>today := 20001\<rparr>) 2 pos0 = Inr (t2, s2)"
      "dt_day (b_bill_date (hd (billing_rows t2))) = today ((const_env 0)\<lparr>today := 20001\<rparr>)"
    using generate_all_data_first_bill [of 2 "(const_env 0)\<lparr>today := 20001\<rparr>" pos0] by auto
  have "t \<noteq> t2" using a(2) b(2) by (auto simp: today_const_env)
  then show "generate_all_data (const_env 0) 2 pos0 \<noteq>
     generate_all_data ((const_env 0)\<lparr>today := 20001\<rparr>) 2 pos0"
    using a(1) b(1) by simp
next
  obtain t s' i where a: "generate_all_data ((const_env 0)\<lparr>clock := \<lambda>i. 2 * i\<rparr>) 2 pos0 = Inr (t, s')"
      "dt_micro (b_bill_date (hd (billing_rows t))) = 2 * i"
    using generate_all_data_first_bill [of 2 "(const_env 0)\<lparr>clock := \<lambda>i. 2 * i\<rparr>" pos0] by auto
  obtain t2 s2 j where b: "generate_all_data ((const_env 0)\<lparr>clock := \<lambda>i. 2 * i + 1\<rparr>) 2 pos0 = Inr (t2, s2)"
      "dt_micro (b_bill_date (hd (billing_rows t2))) = 2 * j + 1"
    using generate_all_data_first_bill [of 2 "(const_env 0)\<lparr>clock := \<lambda>i. 2 * i + 1\<rparr>" pos0] by auto
  have "2 * i \<noteq> 2 * j + 1" by presburger
  then have "t \<noteq> t2" using a(2) b(2) by auto
  then show "generate_all_data ((const_env 0)\<lparr>clock := \<lambda>i. 2 * i\<rparr>) 2 pos0 \<noteq>
     generate_all_data ((const_env 0)\<lparr>clock := \<lambda>i. 2 * i + 1\<rparr>) 2 pos0"
    using a(1) b(1) by simp
qed

text \<open>
  C3, as stated, fails: a customer count of 0 raises no validation error. The constructor
  stores the count, \<^verbatim>\<open>range(0)\<close> is empty, and every stage returns an empty table.
\<close>

theorem count_not_validated_counterexample:
  "generate_all_data (const_env 0) 0 pos0 =
     Inr (\<lparr>customers = [], plans = generate_service_plans, services = [], usage_rows = [],
           billing_rows = [], support_tickets = [], nps_surveys = [], customer_metrics = []\<rparr>, pos0)"
  by (rule generate_all_data_nonpos) simp

text \<open>
  C3, amended. The generator does not validate the customer count. For every count of 0
  or less \<^verbatim>\<open>generate_all_data\<close> raises nothing and returns the plan catalog and seven
  empty tables, leaving the random sources where they were. For every count of 2 or more no
  generation step raises an error, and the customers and customer metrics tables have one
  row per requested customer.
\<close>

theorem count_not_validated:
  "(n \<le> 0 \<longrightarrow>
      generate_all_data e n s =
        Inr (\<lparr>customers = [], plans = generate_service_plans, services = [], usage_rows = [],
              billing_rows = [], support_tickets = [], nps_surveys = [], customer_metrics = []\<rparr>, s)) \<and>
   (2 \<le> n \<longrightarrow>
      (\<exists>t s'. generate_all_data e n s = Inr (t, s') \<and> length (customers t) = nat n \<and>
         length (customer_metrics t) = nat n))"
  using generate_all_data_nonpos [of n e s] generate_all_data_ok [of n e s] by blast

theorem count_not_validated_witness:
  "(- 3 :: int) \<le> 0 \<and>
   generate_all_data (const_env 0) (- 3) pos0 =
     Inr (\<lparr>customers = [], plans = generate_service_plans, services = [], usage_rows = [],
           billing_rows = [], support_tickets = [], nps_surveys = [], customer_metrics = []\<rparr>, pos0) \<and>
   (2 :: int) \<le> 2 \<and>
   (\<exists>t s'. generate_all_data (const_env 0) 2 pos0 = Inr (t, s') \<and> length (customers t) = 2 \<and>
      length (customer_metrics t) = 2)"
  using count_not_validated [of "- 3" "const_env 0" pos0] count_not_validated [of 2 "const_env 0" pos0]
  by simp

text \<open>
  C5. The claim is that a customer without tickets gets the satisfaction 5 and the
  resolution time 0, and that no empty group raises an error. For a customer count of 1
  \<^verbatim>\<open>generate_support_tickets\<close> samples \<open>round(0.4 * 1) = 0\<close> customers, the tickets table
  is built from an empty list and has no columns, and \<^verbatim>\<open>calculate_customer_metrics\<close>
  raises \<^verbatim>\<open>KeyError\<close> at \<^verbatim>\<open>tickets_df['customer_id']\<close> for the one customer, who has no
  ticket. The same happens on any call with a tickets table built from an empty list.
  (Where all four tables have a row, the defaults are as claimed: lemma
  \<open>customer_metric_defaults\<close>.)
\<close>

theorem single_customer_raises:
  "generate_all_data e 1 s = Inl (KeyError ''customer_id'') \<and>
   calculate_customer_metrics e [example_customer] [example_service] [other_billing] [] [other_survey] s
     = Inl (KeyError ''customer_id'')"
  using generate_all_data_single [of e s]
    metrics_loop_KeyError [of "[example_service]" "[other_billing]" "[]" "[other_survey]" e
      example_customer "[]" "[]" s]
  by (simp add: calculate_customer_metrics_def)

end
